theory Spec2Isabelle
  imports Main "HOL-Library.Word"
begin

unbundle bit_operations_syntax

section \<open>JavaScript values used by the host runtime\<close>

text \<open>
  A JavaScript string is a sequence of 16-bit code units; a typed-array byte is an
  8-bit value. Storing a code unit into a \<open>Uint8Array\<close> keeps its low 8 bits
  (\<open>ucast\<close>); \<open>String.fromCharCode\<close> of a byte is the code unit with the same
  value. JavaScript numbers are modelled as exact integers (they are exact below
  \<open>2 ^ 53\<close>); \<open>NaN\<close> and \<open>undefined\<close> are written as \<open>None\<close> where the source
  can produce them.
\<close>

type_synonym byte = "8 word"
type_synonym jschar = "16 word"
type_synonym jsstring = "jschar list"

definition js :: "string \<Rightarrow> jsstring" where
  "js s = map of_char s"

text \<open>Decimal rendering of a number inside a template literal.\<close>

fun digits :: "nat \<Rightarrow> jsstring" where
  "digits n = (if n < 10 then [of_nat (48 + n)] else digits (n div 10) @ [of_nat (48 + n mod 10)])"

definition number_to_string :: "int \<Rightarrow> jsstring" where
  "number_to_string i = (if i < 0 then js ''-'' @ digits (nat (- i)) else digits (nat i))"

section \<open>Exceptions of the runtime (class API, part 001)\<close>

text \<open>
  \<open>ProcExit\<close>, \<open>NotImplemented\<close>, \<open>AbortError\<close> and \<open>AssertError\<close> are the four
  error classes the file declares. \<open>RangeError\<close> is what constructing a typed-array
  view outside its buffer throws; \<open>Trap\<close> stands for any other fault raised while guest
  code runs. The exit code is the 32-bit integer the guest passed to \<open>proc_exit\<close>.
\<close>

datatype exn =
    ProcExit "32 word"
  | NotImplemented jsstring jsstring
  | AbortError
  | AssertError
  | RangeError
  | Trap

text \<open>
  \<open>exn.message\<close>. The four classes of the file build their own message; for an error
  object created by the engine the text is the engine's, passed in as \<open>host_text\<close>.
\<close>

fun message :: "jsstring \<Rightarrow> exn \<Rightarrow> jsstring" where
  "message host_text (ProcExit code) =
     js ''process exited with code '' @ number_to_string (sint code) @ js ''.''"
| "message host_text (NotImplemented modname fieldname) =
     modname @ js ''.'' @ fieldname @ js '' not implemented.''"
| "message host_text AbortError = js ''abort''"
| "message host_text AssertError = js ''assertion failed.''"
| "message host_text RangeError = host_text"
| "message host_text Trap = host_text"

text \<open>\<open>assert(cond)\<close>: throws \<open>AssertError\<close> when the condition is false.\<close>

definition assert :: "bool \<Rightarrow> exn + unit" where
  "assert cond = (if \<not> cond then Inl AssertError else Inr ())"

definition ESUCCESS :: "32 word" where
  "ESUCCESS = 0"

section \<open>Memory: the views over a guest's linear memory\<close>

text \<open>
  The buffer is a list of bytes. \<open>u8[i]\<close> outside the buffer is \<open>undefined\<close>
  (\<open>None\<close>), and a store outside it is silently dropped, as typed arrays do.
  \<open>Memory.check\<close> only re-binds the views after the buffer was replaced; with the
  buffer passed explicitly it has nothing to do.
\<close>

definition u8_at :: "byte list \<Rightarrow> int \<Rightarrow> byte option" where
  "u8_at u8 i = (if 0 \<le> i \<and> i < int (length u8) then Some (u8 ! nat i) else None)"

text \<open>
  The free function \<open>readStr(u8, o, len = -1)\<close>. The loop
  \<open>for (i = o; i < end && u8[i] != 0; ++i) str += String.fromCharCode(u8[i])\<close> runs
  at most \<open>end - o\<close> times; \<open>undefined != 0\<close> is true and
  \<open>String.fromCharCode(undefined)\<close> is the code unit 0, so an index outside the buffer
  contributes a 0 code unit and the loop goes on.
\<close>

fun readStr_loop :: "byte list \<Rightarrow> int \<Rightarrow> nat \<Rightarrow> jsstring" where
  "readStr_loop u8 i 0 = []"
| "readStr_loop u8 i (Suc n) =
     (case u8_at u8 i of
        None \<Rightarrow> 0 # readStr_loop u8 (i + 1) n
      | Some b \<Rightarrow> if b = 0 then [] else ucast b # readStr_loop u8 (i + 1) n)"

definition readStr :: "byte list \<Rightarrow> int \<Rightarrow> int \<Rightarrow> jsstring" where
  "readStr u8 o' len =
     (let end' = (if len \<noteq> - 1 then o' + len else int (length u8))
      in readStr_loop u8 o' (nat (end' - o')))"

text \<open>
  The 32-bit view shares the buffer (little-endian). \<open>read32(o)\<close> is \<open>u32[o >> 2]\<close>:
  \<open>o\<close> is taken as a signed 32-bit integer and shifted arithmetically.
\<close>

definition le32 :: "byte \<Rightarrow> byte \<Rightarrow> byte \<Rightarrow> byte \<Rightarrow> 32 word" where
  "le32 b0 b1 b2 b3 =
     ucast b0 OR push_bit 8 (ucast b1) OR push_bit 16 (ucast b2) OR push_bit 24 (ucast b3)"

definition u32_index :: "int \<Rightarrow> int" where
  "u32_index o' = sint (word_of_int o' :: 32 word) div 4"


definition read32 :: "byte list \<Rightarrow> int \<Rightarrow> 32 word option" where
  "read32 mem o' =
     (let i = u32_index o' in
      if 0 \<le> i \<and> i < int (length mem div 4)
      then Some (le32 (mem ! (4 * nat i)) (mem ! (4 * nat i + 1))
                      (mem ! (4 * nat i + 2)) (mem ! (4 * nat i + 3)))
      else None)"


definition write32 :: "byte list \<Rightarrow> int \<Rightarrow> 32 word \<Rightarrow> byte list" where
  "write32 mem o' v =
     (let i = u32_index o' in
      if 0 \<le> i \<and> i < int (length mem div 4)
      then mem[4 * nat i := ucast v, 4 * nat i + 1 := ucast (drop_bit 8 v),
               4 * nat i + 2 := ucast (drop_bit 16 v), 4 * nat i + 3 := ucast (drop_bit 24 v)]
      else mem)"

text \<open>
  \<open>Memory.write(o, buf)\<close> takes an \<open>ArrayBuffer\<close>, a string or an array of numbers.
  The last branch builds \<open>new Uint8Array(this.buffer, o, buf.length)\<close>, which throws a
  \<open>RangeError\<close> when the view does not fit the buffer, and \<open>dst.set(buf)\<close> stores
  each number modulo 256. The result is the number of bytes and the buffer after it.
\<close>

datatype buf = ArrayBuffer "byte list" | Text jsstring | Numbers "int list"

definition set_numbers :: "byte list \<Rightarrow> int \<Rightarrow> int list \<Rightarrow> exn + (nat \<times> byte list)" where
  "set_numbers mem o' ns =
     (if o' < 0 \<or> int (length mem) < o' + int (length ns) then Inl RangeError
      else Inr (length ns, take (nat o') mem @ map word_of_int ns @ drop (nat o' + length ns) mem))"

definition write_mem :: "byte list \<Rightarrow> int \<Rightarrow> buf \<Rightarrow> exn + (nat \<times> byte list)" where
  "write_mem mem o' buf =
     (case buf of
        ArrayBuffer b \<Rightarrow> set_numbers mem o' (map uint b)
      | Text s \<Rightarrow> set_numbers mem o' (map uint s)
      | Numbers ns \<Rightarrow> set_numbers mem o' ns)"


section \<open>JavaScript numbers that may be NaN\<close>

type_synonym number = "int option"

definition num_add :: "number \<Rightarrow> number \<Rightarrow> number" where
  "num_add a b =
     (case a of None \<Rightarrow> None | Some x \<Rightarrow> (case b of None \<Rightarrow> None | Some y \<Rightarrow> Some (x + y)))"

definition num_sub :: "number \<Rightarrow> number \<Rightarrow> number" where
  "num_sub a b =
     (case a of None \<Rightarrow> None | Some x \<Rightarrow> (case b of None \<Rightarrow> None | Some y \<Rightarrow> Some (x - y)))"

definition math_min :: "number \<Rightarrow> number \<Rightarrow> number" where
  "math_min a b =
     (case a of None \<Rightarrow> None | Some x \<Rightarrow> (case b of None \<Rightarrow> None | Some y \<Rightarrow> Some (min x y)))"

text \<open>Storing a number into a \<open>Uint32Array\<close>: modulo \<open>2 ^ 32\<close>, and NaN becomes 0.\<close>

definition to_uint32 :: "number \<Rightarrow> 32 word" where
  "to_uint32 v = (case v of None \<Rightarrow> 0 | Some n \<Rightarrow> word_of_int n)"

section \<open>MemFS: the bridged write and read syscalls\<close>

text \<open>
  The fields of a \<open>MemFS\<close> object that \<open>host_write\<close> and \<open>host_read\<close> use.
  \<open>hostMem\<close> is the buffer of \<open>hostMem_\<close>, the memory of the running guest;
  \<open>sharedMem\<close> is the buffer shared with the controlling thread; \<open>hostWrite_out\<close>
  lists the payloads \<open>hostWrite\<close> was called with, oldest first; \<open>hostRead_requests\<close>
  counts the calls of \<open>hostRead\<close>.
\<close>

record memfs =
  hostMem :: "byte list"
  stdinStr :: jsstring
  stdinStrPos :: number
  sharedMem :: "byte list"
  hostWrite_out :: "jsstring list"
  hostRead_requests :: nat

text \<open>
  \<open>Memory.readStr(o, len)\<close> as \<open>host_write\<close> calls it, with what \<open>read32\<close> gave:
  an \<open>undefined\<close> offset never enters the loop, an \<open>undefined\<close> length takes the
  default \<open>-1\<close>.
\<close>

definition Memory_readStr :: "byte list \<Rightarrow> 32 word option \<Rightarrow> 32 word option \<Rightarrow> jsstring" where
  "Memory_readStr mem o' len =
     (case o' of
        None \<Rightarrow> []
      | Some p \<Rightarrow> readStr mem (uint p) (case len of None \<Rightarrow> - 1 | Some l \<Rightarrow> uint l))"

text \<open>The \<open>for\<close> loop of \<open>host_write\<close> over \<open>iovs_len\<close> iovecs.\<close>

fun host_write_loop :: "byte list \<Rightarrow> int \<Rightarrow> nat \<Rightarrow> number \<Rightarrow> jsstring \<Rightarrow> number \<times> jsstring" where
  "host_write_loop mem iovs 0 size' str = (size', str)"
| "host_write_loop mem iovs (Suc n) size' str =
     (let buf = read32 mem iovs;
          len = read32 mem (iovs + 4)
      in host_write_loop mem (iovs + 8) n (num_add size' (map_option uint len))
           (str @ Memory_readStr mem buf len))"

text \<open>
  \<open>MemFS.host_write(fd, iovs, iovs_len, nwritten_out)\<close>. The four arguments are the
  32-bit integers of the guest's call, which JavaScript sees as signed numbers.
\<close>

definition host_write :: "32 word \<Rightarrow> 32 word \<Rightarrow> 32 word \<Rightarrow> 32 word \<Rightarrow> memfs \<Rightarrow> (exn + 32 word) \<times> memfs" where
  "host_write fd iovs iovs_len nwritten_out m =
     (case assert (sint fd \<le> 2) of
        Inl e \<Rightarrow> (Inl e, m)
      | Inr _ \<Rightarrow>
          (case host_write_loop (hostMem m) (sint iovs) (nat (sint iovs_len)) (Some 0) [] of
             (size', str) \<Rightarrow>
               (Inr ESUCCESS,
                m\<lparr>hostMem := write32 (hostMem m) (sint nwritten_out) (to_uint32 size'),
                  hostWrite_out := hostWrite_out m @ [str]\<rparr>)))"

text \<open>
  The controlling thread's answer to a \<open>readStdin\<close> request (\<open>WorkerAPI.onmessage\<close>,
  worker-api.js): it stores the code units of the input at the start of the shared buffer,
  a 0 after them, and then calls \<open>Atomics.notify\<close>.
\<close>

fun store_chars :: "byte list \<Rightarrow> nat \<Rightarrow> jsstring \<Rightarrow> byte list" where
  "store_chars view i [] = view"
| "store_chars view i (c # cs) = store_chars (view[i := ucast c]) (Suc i) cs"

definition deliver_input :: "jsstring \<Rightarrow> byte list \<Rightarrow> byte list" where
  "deliver_input value' view = (store_chars view 0 value')[length value' := 0]"

text \<open>
  \<open>Atomics.wait(new Int32Array(sharedMem.buffer), 0, 0)\<close>, seen from the worker.
  \<open>new Int32Array(buffer)\<close> throws a \<open>RangeError\<close> when the byte length of the
  buffer is not a multiple of 4, and \<open>Atomics.wait\<close> throws one when the array has no
  element 0; when element 0 is not 0 the call returns at once and the buffer is read as it
  stands; otherwise the worker sleeps until it is notified. \<open>input\<close> is what the
  controlling thread does while the worker sleeps: \<open>None\<close> when it never notifies (the
  call never returns), \<open>Some v\<close> when it delivers \<open>v\<close>. (The buffer of the
  application is that of a shared \<open>WebAssembly.Memory\<close>, a whole number of 64 KiB
  pages.)
\<close>

definition atomics_wait :: "byte list \<Rightarrow> jsstring option \<Rightarrow> (exn + byte list) option" where
  "atomics_wait sm input =
     (if length sm mod 4 \<noteq> 0 then Some (Inl RangeError)
      else
        (case read32 sm 0 of
           None \<Rightarrow> Some (Inl RangeError)
         | Some w \<Rightarrow>
             if w \<noteq> 0 then Some (Inr sm)
             else (case input of None \<Rightarrow> None | Some v \<Rightarrow> Some (Inr (deliver_input v sm)))))"

text \<open>
  The loop \<open>for (let i = 0; ; i++) { if (sharedMem[i] === 0) break; str += ... }\<close>. It
  has no bound: in a buffer without a 0 byte every later read is \<open>undefined\<close>, which
  is not \<open>=== 0\<close>, and the loop does not return (\<open>None\<close>).
\<close>

partial_function (option) scan_sharedMem :: "byte list \<Rightarrow> nat \<Rightarrow> jsstring \<Rightarrow> jsstring option" where
  "scan_sharedMem sm i str =
     (if u8_at sm (int i) = Some 0 then Some str
      else scan_sharedMem sm (i + 1)
             (str @ [case u8_at sm (int i) of None \<Rightarrow> 0 | Some b \<Rightarrow> ucast b]))"

declare scan_sharedMem.simps [code]

definition setStdinStr :: "jsstring \<Rightarrow> memfs \<Rightarrow> memfs" where
  "setStdinStr str m = m\<lparr>stdinStr := str, stdinStrPos := Some 0\<rparr>"

text \<open>\<open>s.substr(start, len)\<close> for a start that is not negative; NaN counts as 0.\<close>

definition substr :: "jsstring \<Rightarrow> number \<Rightarrow> number \<Rightarrow> jsstring" where
  "substr s start len =
     take (nat (case len of None \<Rightarrow> 0 | Some l \<Rightarrow> l))
          (drop (nat (case start of None \<Rightarrow> 0 | Some p \<Rightarrow> p)) s)"

text \<open>
  The second \<open>for\<close> loop of \<open>host_read\<close>. \<open>lenToWrite\<close> is NaN when the length word
  could not be read; then nothing is written, the sums become NaN and the loop is left,
  since \<open>NaN !== len\<close>.
\<close>

fun host_read_loop :: "nat \<Rightarrow> int \<Rightarrow> number \<Rightarrow> memfs \<Rightarrow> (exn + number) \<times> memfs" where
  "host_read_loop 0 iovs size' m = (Inr size', m)"
| "host_read_loop (Suc n) iovs size' m =
     (let buf = read32 (hostMem m) iovs;
          len = map_option uint (read32 (hostMem m) (iovs + 4));
          lenToWrite = math_min len (num_sub (Some (int (length (stdinStr m)))) (stdinStrPos m))
      in if lenToWrite = Some 0 then (Inr size', m)
         else
           (case write_mem (hostMem m) (case buf of None \<Rightarrow> 0 | Some b \<Rightarrow> uint b)
                   (Text (substr (stdinStr m) (stdinStrPos m) lenToWrite)) of
              Inl e \<Rightarrow> (Inl e, m)
            | Inr (_, mem') \<Rightarrow>
                let size'' = num_add size' lenToWrite;
                    m' = m\<lparr>hostMem := mem', stdinStrPos := num_add (stdinStrPos m) lenToWrite\<rparr>
                in if lenToWrite \<noteq> len \<or> lenToWrite = None then (Inr size'', m')
                   else host_read_loop n (iovs + 8) size'' m'))"

text \<open>
  \<open>MemFS.host_read(fd, iovs, iovs_len, nread)\<close>. \<open>None\<close>: the call does not return.
  The request, the wait, the scan of the mailbox, \<open>setStdinStr\<close> and \<open>fill(0)\<close> all
  come before \<open>assert(fd === 0)\<close>, as in the source.
\<close>

definition host_read :: "32 word \<Rightarrow> 32 word \<Rightarrow> 32 word \<Rightarrow> 32 word \<Rightarrow> jsstring option \<Rightarrow> memfs
    \<Rightarrow> ((exn + 32 word) \<times> memfs) option" where
  "host_read fd iovs iovs_len nread input m =
     (let m1 = m\<lparr>hostRead_requests := hostRead_requests m + 1\<rparr>
      in case atomics_wait (sharedMem m1) input of
           None \<Rightarrow> None
         | Some (Inl e) \<Rightarrow> Some (Inl e, m1)
         | Some (Inr sm) \<Rightarrow>
             (case scan_sharedMem sm 0 [] of
                None \<Rightarrow> None
              | Some str \<Rightarrow>
                  let m2 = (setStdinStr str m1)\<lparr>sharedMem := replicate (length sm) 0\<rparr>
                  in case assert (sint fd = 0) of
                       Inl e \<Rightarrow> Some (Inl e, m2)
                     | Inr _ \<Rightarrow>
                         (case host_read_loop (nat (sint iovs_len)) (sint iovs) (Some 0) m2 of
                            (r, m3) \<Rightarrow>
                              (case r of
                                 Inl e \<Rightarrow> Some (Inl e, m3)
                               | Inr size' \<Rightarrow>
                                   Some (Inr ESUCCESS,
                                         m3\<lparr>hostMem := write32 (hostMem m3) (sint nread)
                                                            (to_uint32 size')\<rparr>)))))"

text \<open>
  An array of iovecs as the loops read it: \<open>iovecs_at mem p ios\<close> says that the
  \<open>(buf, len)\<close> pairs \<open>ios\<close> are what \<open>read32\<close> finds from address \<open>p\<close> on.
  \<open>iov_bytes\<close> is the buffer an iovec names, \<open>iov_text\<close> what \<open>readStr\<close> makes of it.
\<close>

fun iovecs_at :: "byte list \<Rightarrow> int \<Rightarrow> (32 word \<times> 32 word) list \<Rightarrow> bool" where
  "iovecs_at mem p [] = True"
| "iovecs_at mem p ((buf, len) # ios) =
     (read32 mem p = Some buf \<and> read32 mem (p + 4) = Some len \<and> iovecs_at mem (p + 8) ios)"

definition iov_text :: "byte list \<Rightarrow> 32 word \<times> 32 word \<Rightarrow> jsstring" where
  "iov_text mem io = readStr mem (uint (fst io)) (uint (snd io))"

definition iov_bytes :: "byte list \<Rightarrow> 32 word \<times> 32 word \<Rightarrow> byte list" where
  "iov_bytes mem io = take (unat (snd io)) (drop (unat (fst io)) mem)"

text \<open>
  For reads into several iovecs: \<open>headers_outside p n b l\<close> says that none of the
  \<open>2 * n\<close> words of the iovec array at \<open>p\<close> has a byte in the buffer of \<open>l\<close>
  bytes at \<open>b\<close>, so that filling the buffer leaves the array as it was. \<open>scatter\<close>
  is the memory after the input \<open>s\<close> has been written into the iovecs in order, and
  \<open>iov_total\<close> their total capacity.
\<close>

definition word_outside :: "int \<Rightarrow> nat \<Rightarrow> nat \<Rightarrow> bool" where
  "word_outside q b l =
     (\<forall>t < 4. 4 * nat (u32_index q) + t < b \<or> b + l \<le> 4 * nat (u32_index q) + t)"

fun headers_outside :: "int \<Rightarrow> nat \<Rightarrow> nat \<Rightarrow> nat \<Rightarrow> bool" where
  "headers_outside p 0 b l = True"
| "headers_outside p (Suc n) b l =
     (word_outside p b l \<and> word_outside (p + 4) b l \<and> headers_outside (p + 8) n b l)"

fun scatter :: "byte list \<Rightarrow> jsstring \<Rightarrow> (32 word \<times> 32 word) list \<Rightarrow> byte list" where
  "scatter mem s [] = mem"
| "scatter mem s ((buf, len) # ios) =
     (if s = [] then mem
      else scatter (take (unat buf) mem @ map ucast (take (unat len) s)
                      @ drop (unat buf + min (unat len) (length s)) mem)
                   (drop (unat len) s) ios)"

definition iov_total :: "(32 word \<times> 32 word) list \<Rightarrow> nat" where
  "iov_total ios = sum_list (map (\<lambda>io. unat (snd io)) ios)"

text \<open>Small guest memories for the concrete checks below.\<close>

definition memfs0 :: "byte list \<Rightarrow> memfs" where
  "memfs0 mem = \<lparr>hostMem = mem, stdinStr = [], stdinStrPos = Some 0, sharedMem = replicate 8 0,
      hostWrite_out = [], hostRead_requests = 0\<rparr>"

definition hello_mem :: "byte list" where
  "hello_mem = [8, 0, 0, 0, 6, 0, 0, 0, 72, 101, 108, 108, 111, 10, 0, 0, 0, 0, 0, 0]"

definition nul_mem :: "byte list" where
  "nul_mem = [8, 0, 0, 0, 3, 0, 0, 0, 72, 0, 105, 0, 0, 0, 0, 0]"

definition zero_iov_mem :: "byte list" where
  "zero_iov_mem = [16, 0, 0, 0, 0, 0, 0, 0, 16, 0, 0, 0, 10, 0, 0, 0,
                   1, 1, 1, 1, 1, 1, 1, 1, 1, 1, 1, 1, 9, 9, 9, 9]"



section \<open>Tar: the archive reader\<close>

text \<open>
  A \<open>Tar\<close> object: the bytes of the archive and the read offset. \<open>Tar.readStr(len)\<close>
  reads at the offset with the free \<open>readStr\<close> and advances by \<open>len\<close>.
\<close>

record tar =
  u8 :: "byte list"
  offset :: int

definition Tar_readStr :: "nat \<Rightarrow> tar \<Rightarrow> jsstring \<times> tar" where
  "Tar_readStr len t = (readStr (u8 t) (offset t) (int len), t\<lparr>offset := offset t + int len\<rparr>)"

text \<open>
  \<open>parseInt(s, 8)\<close>: leading white space is skipped, one sign is taken, then the longest
  run of octal digits is read; no digit gives NaN. (No \<open>0x\<close> prefix is stripped for
  radix 8; the fields are at most 12 characters, so the value is exact.)
\<close>

definition is_StrWhiteSpaceChar :: "jschar \<Rightarrow> bool" where
  "is_StrWhiteSpaceChar c =
     (c \<in> {0x9, 0xA, 0xB, 0xC, 0xD, 0x20, 0xA0, 0x1680, 0x2028, 0x2029, 0x202F, 0x205F, 0x3000, 0xFEFF}
      \<or> (0x2000 \<le> c \<and> c \<le> 0x200A))"

definition is_octal_digit :: "jschar \<Rightarrow> bool" where
  "is_octal_digit c = (0x30 \<le> c \<and> c \<le> 0x37)"

definition octal_value :: "jsstring \<Rightarrow> int" where
  "octal_value ds = foldl (\<lambda>a d. 8 * a + (uint d - 48)) 0 ds"

definition parseInt8 :: "jsstring \<Rightarrow> number" where
  "parseInt8 str =
     (let s1 = dropWhile is_StrWhiteSpaceChar str;
          negative = (s1 \<noteq> [] \<and> hd s1 = 0x2D);
          s2 = (if s1 \<noteq> [] \<and> (hd s1 = 0x2B \<or> hd s1 = 0x2D) then tl s1 else s1);
          z = takeWhile is_octal_digit s2
      in if z = [] then None
         else Some ((if negative then - 1 else 1) * octal_value z))"

definition readOctal :: "nat \<Rightarrow> tar \<Rightarrow> number \<times> tar" where
  "readOctal len t = (case Tar_readStr len t of (s, t') \<Rightarrow> (parseInt8 s, t'))"

text \<open>
  \<open>alignUp\<close>: \<open>this.offset = (this.offset + 511) & ~511\<close>, on signed 32-bit integers;
  a NaN offset becomes 0. The offset is NaN only between \<open>this.offset += entry.size\<close>
  and the \<open>alignUp\<close> that follows it, so the field itself is kept an integer.
\<close>

definition alignUp_number :: "number \<Rightarrow> int" where
  "alignUp_number v =
     (case v of
        None \<Rightarrow> 0
      | Some x \<Rightarrow> sint ((word_of_int (x + 511) :: 32 word) AND NOT 511))"

definition alignUp :: "tar \<Rightarrow> tar" where
  "alignUp t = t\<lparr>offset := alignUp_number (Some (offset t))\<rparr>"

text \<open>
  \<open>u8.subarray(begin, end)\<close>: negative indices count from the end, both are clamped
  to the array, a NaN end is 0.
\<close>

definition relative_index :: "nat \<Rightarrow> int \<Rightarrow> nat" where
  "relative_index len r = (if r < 0 then nat (max (int len + r) 0) else min (nat r) len)"

definition subarray :: "byte list \<Rightarrow> int \<Rightarrow> number \<Rightarrow> byte list" where
  "subarray a begin end' =
     (let b = relative_index (length a) begin;
          e = relative_index (length a) (case end' of None \<Rightarrow> 0 | Some x \<Rightarrow> x)
      in take (e - b) (drop b a))"

text \<open>The entry object; \<open>contents\<close> stays \<open>undefined\<close> (\<open>None\<close>) for a directory.\<close>

record entry =
  filename :: jsstring
  mode :: number
  owner :: number
  group' :: number
  size' :: number
  mtim :: number
  checksum :: number
  type' :: jsstring
  linkname :: jsstring
  ownerName :: jsstring
  groupName :: jsstring
  devMajor :: jsstring
  devMinor :: jsstring
  filenamePrefix :: jsstring
  contents :: "byte list option"

text \<open>
  \<open>Tar.readEntry\<close>. \<open>Inr None\<close> is \<open>return null\<close>; \<open>Inl AssertError\<close> is the
  \<open>assert(false)\<close> for a type that is neither \<open>'0'\<close> nor \<open>'5'\<close>.
\<close>

definition readEntry :: "tar \<Rightarrow> (exn + entry option) \<times> tar" where
  "readEntry t =
     (if int (length (u8 t)) < offset t + 512 then (Inr None, t)
      else
        (case Tar_readStr 100 t of (f_filename, t1) \<Rightarrow>
         case readOctal 8 t1 of (f_mode, t2) \<Rightarrow>
         case readOctal 8 t2 of (f_owner, t3) \<Rightarrow>
         case readOctal 8 t3 of (f_group, t4) \<Rightarrow>
         case readOctal 12 t4 of (f_size, t5) \<Rightarrow>
         case readOctal 12 t5 of (f_mtim, t6) \<Rightarrow>
         case readOctal 8 t6 of (f_checksum, t7) \<Rightarrow>
         case Tar_readStr 1 t7 of (f_type, t8) \<Rightarrow>
         case Tar_readStr 100 t8 of (f_linkname, t9) \<Rightarrow>
         case Tar_readStr 8 t9 of (magic, t10) \<Rightarrow>
           if magic \<noteq> js ''ustar  '' then (Inr None, t10)
           else
             (case Tar_readStr 32 t10 of (f_ownerName, t11) \<Rightarrow>
              case Tar_readStr 32 t11 of (f_groupName, t12) \<Rightarrow>
              case Tar_readStr 8 t12 of (f_devMajor, t13) \<Rightarrow>
              case Tar_readStr 8 t13 of (f_devMinor, t14) \<Rightarrow>
              case Tar_readStr 155 t14 of (f_filenamePrefix, t15) \<Rightarrow>
                let t16 = alignUp t15;
                    e = \<lparr>filename = f_filename, mode = f_mode, owner = f_owner, group' = f_group,
                         size' = f_size, mtim = f_mtim, checksum = f_checksum, type' = f_type,
                         linkname = f_linkname, ownerName = f_ownerName, groupName = f_groupName,
                         devMajor = f_devMajor, devMinor = f_devMinor,
                         filenamePrefix = f_filenamePrefix, contents = None\<rparr>
                in if f_type = js ''0'' then
                     (Inr (Some (e\<lparr>contents := Some (subarray (u8 t16) (offset t16)
                                                        (num_add (Some (offset t16)) f_size))\<rparr>)),
                      t16\<lparr>offset := alignUp_number (num_add (Some (offset t16)) f_size)\<rparr>)
                   else if f_type \<noteq> js ''5'' then (Inl AssertError, t16)
                   else (Inr (Some e), t16))))"

text \<open>
  \<open>Tar.untar(memfs)\<close>: \<open>while (entry = this.readEntry()) switch (entry.type) ...\<close>.
  The two operations of the file system are parameters; each may throw. The loop has no
  bound of its own (a size field can send the offset backwards), so not returning is
  \<open>None\<close>. \<open>memfs.addFile\<close> reads \<open>contents.length\<close>, which throws on
  \<open>undefined\<close>; that is left to the parameter.
\<close>

partial_function (option) untar ::
    "('fs \<Rightarrow> jsstring \<Rightarrow> byte list option \<Rightarrow> exn + 'fs) \<Rightarrow> ('fs \<Rightarrow> jsstring \<Rightarrow> exn + 'fs) \<Rightarrow> tar \<Rightarrow> 'fs
      \<Rightarrow> ((exn + unit) \<times> tar \<times> 'fs) option" where
  "untar addFile addDirectory t fs =
     (case readEntry t of
        (Inl e, t') \<Rightarrow> Some (Inl e, t', fs)
      | (Inr None, t') \<Rightarrow> Some (Inr (), t', fs)
      | (Inr (Some en), t') \<Rightarrow>
          if type' en = js ''0'' then
            (case addFile fs (filename en) (contents en) of
               Inl e \<Rightarrow> Some (Inl e, t', fs)
             | Inr fs' \<Rightarrow> untar addFile addDirectory t' fs')
          else if type' en = js ''5'' then
            (case addDirectory fs (filename en) of
               Inl e \<Rightarrow> Some (Inl e, t', fs)
             | Inr fs' \<Rightarrow> untar addFile addDirectory t' fs')
          else untar addFile addDirectory t' fs)"

declare untar.simps [code]

text \<open>
  The type flag and the magic of the header at the current offset, as \<open>readEntry\<close>
  reads them: 156 and 257 bytes into the header.
\<close>

definition header_type :: "tar \<Rightarrow> jsstring" where
  "header_type t = readStr (u8 t) (offset t + 156) 1"

definition header_magic :: "tar \<Rightarrow> jsstring" where
  "header_magic t = readStr (u8 t) (offset t + 257) 8"

text \<open>
  A 512-byte header with a name, a size field and a type flag, and lists standing for a
  file system, for the concrete checks below.
\<close>

definition tar_header :: "string \<Rightarrow> string \<Rightarrow> byte \<Rightarrow> byte list" where
  "tar_header name size_field flag =
     map of_char name @ replicate (100 - length name) 0 @ replicate 24 0 @
     map of_char size_field @ replicate (12 - length size_field) 0 @ replicate 20 0 @ [flag] @
     replicate 100 0 @ map of_char ''ustar  '' @ [0] @ replicate 247 0"

definition list_addFile :: "(jsstring \<times> byte list option) list \<Rightarrow> jsstring \<Rightarrow> byte list option
    \<Rightarrow> exn + (jsstring \<times> byte list option) list" where
  "list_addFile fs path c = Inr (fs @ [(path, c)])"

definition list_addDirectory :: "(jsstring \<times> byte list option) list \<Rightarrow> jsstring
    \<Rightarrow> exn + (jsstring \<times> byte list option) list" where
  "list_addDirectory fs path = Inr (fs @ [(path, None)])"

definition bad_archive :: "byte list" where
  "bad_archive = tar_header ''src/'' ''0'' 0x35 @ tar_header ''lnk'' ''0'' 0x32"

section \<open>MemFS: the file system\<close>

text \<open>
  Modelled from the spec: the file-system engine. \<open>MemFS\<close> keeps its nodes in a separate
  guest module (\<open>this.exports\<close>, instantiated from \<open>memfsFilename\<close>) whose code is not
  among the sources; only the calls \<open>GetPathBuf\<close>, \<open>AddDirectoryNode\<close>,
  \<open>AddFileNode\<close>, \<open>FindNode\<close>, \<open>GetFileNodeAddress\<close> and \<open>GetFileNodeSize\<close>
  are. The spec gives a node a path, a byte length, a content address and a kind, and names
  the primitives register-directory, register-file-of-size, find-by-path,
  get-content-address, get-content-size and get-scratch-path-buffer.
\<close>

datatype node_kind = File | Directory

text \<open>Modelled from the spec: a node's kind, content address and byte length.\<close>

record fsnode =
  node_kind :: node_kind
  node_addr :: nat
  node_size :: nat

text \<open>
  Modelled from the spec: the engine's state, its linear memory \<open>emem\<close> (the buffer of
  \<open>this.mem\<close>), the address of the scratch path buffer and the node table keyed by the
  bytes of the path.
\<close>

record engine =
  emem :: "byte list"
  path_buf :: nat
  nodes :: "byte list \<rightharpoonup> fsnode"

text \<open>
  \<open>NotFound\<close> is modelled from the spec: the failure of find-by-path on an unregistered
  path. \<open>Thrown\<close> carries an exception of the host code.
\<close>

datatype fs_error = NotFound | Thrown exn

text \<open>
  Modelled from the spec: the engine after \<open>init()\<close>, with \<open>cap\<close> bytes of memory,
  the path buffer at their start and no node.
\<close>

definition init_engine :: "nat \<Rightarrow> engine" where
  "init_engine cap = \<lparr>emem = replicate cap 0, path_buf = 0, nodes = Map.empty\<rparr>"

text \<open>Modelled from the spec: get-scratch-path-buffer.\<close>

definition GetPathBuf :: "engine \<Rightarrow> nat" where
  "GetPathBuf e = path_buf e"

text \<open>
  Modelled from the spec: the path a primitive is called for, the \<open>len\<close> bytes the host
  wrote to the path buffer.
\<close>

definition path_arg :: "nat \<Rightarrow> engine \<Rightarrow> byte list" where
  "path_arg len e = take len (drop (path_buf e) (emem e))"

text \<open>Modelled from the spec: register-directory.\<close>

definition AddDirectoryNode :: "nat \<Rightarrow> engine \<Rightarrow> engine" where
  "AddDirectoryNode len e =
     e\<lparr>nodes := (nodes e)(path_arg len e \<mapsto> \<lparr>node_kind = Directory, node_addr = 0, node_size = 0\<rparr>)\<rparr>"

text \<open>
  Modelled from the spec: register-file-of-size. It allocates \<open>sz\<close> fresh bytes at the
  end of the memory and registers the node, replacing a node already at that path.
\<close>

definition AddFileNode :: "nat \<Rightarrow> nat \<Rightarrow> engine \<Rightarrow> fsnode \<times> engine" where
  "AddFileNode len sz e =
     (let n = \<lparr>node_kind = File, node_addr = length (emem e), node_size = sz\<rparr>
      in (n, e\<lparr>emem := emem e @ replicate sz 0, nodes := (nodes e)(path_arg len e \<mapsto> n)\<rparr>))"

text \<open>
  Modelled from the spec: find-by-path, which fails with \<open>NotFound\<close> when the path is
  not registered.
\<close>

definition FindNode :: "nat \<Rightarrow> engine \<Rightarrow> fs_error + fsnode" where
  "FindNode len e = (case nodes e (path_arg len e) of None \<Rightarrow> Inl NotFound | Some n \<Rightarrow> Inr n)"

text \<open>Modelled from the spec: get-content-address and get-content-size.\<close>

definition GetFileNodeAddress :: "fsnode \<Rightarrow> nat" where
  "GetFileNodeAddress n = node_addr n"

definition GetFileNodeSize :: "fsnode \<Rightarrow> nat" where
  "GetFileNodeSize n = node_size n"

text \<open>
  From here on the host code of \<open>MemFS\<close>. \<open>buf_length\<close> is \<open>contents.byteLength\<close>
  or \<open>contents.length\<close>; \<open>write_path\<close> is the step
  \<open>this.mem.write(this.exports.GetPathBuf(), path)\<close> that the three methods start with.
\<close>

definition buf_length :: "buf \<Rightarrow> nat" where
  "buf_length b = (case b of ArrayBuffer x \<Rightarrow> length x | Text s \<Rightarrow> length s | Numbers ns \<Rightarrow> length ns)"

definition write_path :: "jsstring \<Rightarrow> engine \<Rightarrow> fs_error + engine" where
  "write_path path e =
     (case write_mem (emem e) (int (GetPathBuf e)) (Text path) of
        Inl x \<Rightarrow> Inl (Thrown x)
      | Inr (_, mem') \<Rightarrow> Inr (e\<lparr>emem := mem'\<rparr>))"

text \<open>\<open>MemFS.addDirectory(path)\<close> and \<open>MemFS.addFile(path, contents)\<close>.\<close>

definition addDirectory :: "jsstring \<Rightarrow> engine \<Rightarrow> fs_error + engine" where
  "addDirectory path e =
     (case write_path path e of
        Inl x \<Rightarrow> Inl x
      | Inr e1 \<Rightarrow> Inr (AddDirectoryNode (length path) e1))"

definition addFile :: "jsstring \<Rightarrow> buf \<Rightarrow> engine \<Rightarrow> fs_error + engine" where
  "addFile path contents' e =
     (let len = buf_length contents' in
      case write_path path e of
        Inl x \<Rightarrow> Inl x
      | Inr e1 \<Rightarrow>
          (case AddFileNode (length path) len e1 of
             (inode, e2) \<Rightarrow>
               (case write_mem (emem e2) (int (GetFileNodeAddress inode)) contents' of
                  Inl x \<Rightarrow> Inl (Thrown x)
                | Inr (_, mem') \<Rightarrow> Inr (e2\<lparr>emem := mem'\<rparr>))))"

text \<open>
  \<open>MemFS.getFileContents(path)\<close> returns \<open>new Uint8Array(this.mem.buffer, addr, size)\<close>;
  the view is given as the bytes it shows, and it throws when it does not fit the buffer.
\<close>

definition new_Uint8Array :: "byte list \<Rightarrow> nat \<Rightarrow> nat \<Rightarrow> exn + byte list" where
  "new_Uint8Array buffer byteOffset len =
     (if length buffer < byteOffset + len then Inl RangeError
      else Inr (take len (drop byteOffset buffer)))"

definition getFileContents :: "jsstring \<Rightarrow> engine \<Rightarrow> (fs_error + byte list) \<times> engine" where
  "getFileContents path e =
     (case write_path path e of
        Inl x \<Rightarrow> (Inl x, e)
      | Inr e1 \<Rightarrow>
          (case FindNode (length path) e1 of
             Inl x \<Rightarrow> (Inl x, e1)
           | Inr inode \<Rightarrow>
               (case new_Uint8Array (emem e1) (GetFileNodeAddress inode) (GetFileNodeSize inode) of
                  Inl x \<Rightarrow> (Inl (Thrown x), e1)
                | Inr view \<Rightarrow> (Inr view, e1))))"

text \<open>A history of registrations, run from a fresh engine; it stops at the first failure.\<close>

datatype fsop = AddFile jsstring buf | AddDirectory jsstring

fun op_path :: "fsop \<Rightarrow> jsstring" where
  "op_path (AddFile p c) = p"
| "op_path (AddDirectory p) = p"

fun apply_op :: "fsop \<Rightarrow> engine \<Rightarrow> fs_error + engine" where
  "apply_op (AddFile p c) e = addFile p c e"
| "apply_op (AddDirectory p) e = addDirectory p e"

fun apply_ops :: "fsop list \<Rightarrow> engine \<Rightarrow> fs_error + engine" where
  "apply_ops [] e = Inr e"
| "apply_ops (x # xs) e = (case apply_op x e of Inl err \<Rightarrow> Inl err | Inr e' \<Rightarrow> apply_ops xs e')"

text \<open>
  The bytes \<open>Memory.write\<close> stores for a path, and the strings whose code units all fit
  a byte.
\<close>

definition path_bytes :: "jsstring \<Rightarrow> byte list" where
  "path_bytes p = map ucast p"

definition latin1 :: "jsstring \<Rightarrow> bool" where
  "latin1 s = list_all (\<lambda>c. c < 256) s"

text \<open>The last registration of a path among the operations, if any.\<close>

fun last_registration :: "byte list \<Rightarrow> fsop list \<Rightarrow> fsop option" where
  "last_registration p [] = None"
| "last_registration p (x # xs) =
     (case last_registration p xs of
        Some y \<Rightarrow> Some y
      | None \<Rightarrow> if path_bytes (op_path x) = p then Some x else None)"


definition demo_ops :: "fsop list" where
  "demo_ops = [AddDirectory (js ''src/''), AddFile (js ''src/a.txt'') (Text (js ''hi'' @ [10]))]"

text \<open>
  A registration under a one-character path whose code unit, U+0141, has the low byte of
  \<open>A\<close>.
\<close>

definition collision_ops :: "fsop list" where
  "collision_ops = [AddFile [0x141] (Text (js ''x''))]"

text \<open>The node a registration leaves, and the invariant of the engine's memory.\<close>

fun node_for :: "fsop \<Rightarrow> fsnode \<Rightarrow> bool" where
  "node_for (AddFile q c) n = (node_kind n = File \<and> node_size n = buf_length c)"
| "node_for (AddDirectory q) n = (n = \<lparr>node_kind = Directory, node_addr = 0, node_size = 0\<rparr>)"

definition engine_ok :: "engine \<Rightarrow> bool" where
  "engine_ok e = (path_buf e = 0 \<and>
     (\<forall>p n. nodes e p = Some n \<longrightarrow> node_addr n + node_size n \<le> length (emem e)))"

section \<open>The Python worker: formatErrorMsg (part 000)\<close>

text \<open>
  \<open>s.split(sep)\<close> for a one-character separator (never an empty array) and
  \<open>a.join(sep)\<close>.
\<close>

fun js_split :: "jschar \<Rightarrow> jsstring \<Rightarrow> jsstring list" where
  "js_split sep [] = [[]]"
| "js_split sep (c # cs) =
     (if c = sep then [] # js_split sep cs
      else (case js_split sep cs of
              [] \<Rightarrow> [[c]]
            | l # ls \<Rightarrow> (c # l) # ls))"

fun js_join :: "jsstring \<Rightarrow> jsstring list \<Rightarrow> jsstring" where
  "js_join sep [] = []"
| "js_join sep [x] = x"
| "js_join sep (x # y # ys) = x @ sep @ js_join sep (y # ys)"

text \<open>
  \<open>str.replace(searchValue, replaceValue)\<close> with two strings: only the first
  occurrence is replaced, and in \<open>replaceValue\<close> the patterns \<open>$$\<close>, \<open>$&\<close>,
  \<open>$`\<close> and \<open>$'\<close> stand for a dollar sign, the matched text, the text before
  the match and the text after it. A string pattern has no capture groups, so a dollar
  sign before a digit or \<open><\<close> stays as it is.
\<close>

fun index_of :: "jsstring \<Rightarrow> jsstring \<Rightarrow> nat option" where
  "index_of pat [] = (if pat = [] then Some 0 else None)"
| "index_of pat (c # cs) =
     (if take (length pat) (c # cs) = pat then Some 0
      else map_option Suc (index_of pat cs))"

fun get_substitution :: "jsstring \<Rightarrow> jsstring \<Rightarrow> nat \<Rightarrow> jsstring \<Rightarrow> jsstring" where
  "get_substitution matched str pos [] = []"
| "get_substitution matched str pos [c] = [c]"
| "get_substitution matched str pos (c # d # r) =
     (if c = 0x24 then
        (if d = 0x24 then 0x24 # get_substitution matched str pos r
         else if d = 0x26 then matched @ get_substitution matched str pos r
         else if d = 0x60 then take pos str @ get_substitution matched str pos r
         else if d = 0x27 then drop (pos + length matched) str @ get_substitution matched str pos r
         else c # get_substitution matched str pos (d # r))
      else c # get_substitution matched str pos (d # r))"

definition js_replace :: "jsstring \<Rightarrow> jsstring \<Rightarrow> jsstring \<Rightarrow> jsstring" where
  "js_replace str searchValue replaceValue =
     (case index_of searchValue str of
        None \<Rightarrow> str
      | Some pos \<Rightarrow>
          take pos str @ get_substitution searchValue str pos replaceValue
            @ drop (pos + length searchValue) str)"

text \<open>
  \<open>API.formatErrorMsg(msg, activeTabName)\<close>: split into lines, keep the first line and
  the lines from index 7 on, replace in each, join.
\<close>

definition formatErrorMsg :: "jsstring \<Rightarrow> jsstring \<Rightarrow> jsstring" where
  "formatErrorMsg msg activeTabName =
     (let msg1 = js_split 0x0A msg;
          msg2 = [hd msg1] @ drop 7 msg1;
          msg3 = map (\<lambda>line. js_replace line (js ''<exec>'') activeTabName) msg2
      in js_join [0x0A] msg3)"

text \<open>The error message of the comment above \<open>formatErrorMsg\<close>, shortened.\<close>

definition traceback :: jsstring where
  "traceback =
     js ''Traceback (most recent call last):'' @ [0x0A] @
     js ''  File a, line 499, in eval_code'' @ [0x0A] @
     js ''    .run(globals, locals)'' @ [0x0A] @
     js ''     ^^^^^^^^^^^^^^^^^^^^'' @ [0x0A] @
     js ''  File a, line 340, in run'' @ [0x0A] @
     js ''    coroutine = eval(self.code, globals, locals)'' @ [0x0A] @
     js ''                ^^^^^^^^^^^^^^^^^^^^^^^^^^^^^^^^'' @ [0x0A] @
     js ''  File '' @ [0x22] @ js ''<exec>'' @ [0x22] @ js '', line 1, in <module>'' @ [0x0A] @
     js ''NameError: name x is not defined''"

section \<open>App: running one guest instance\<close>

definition RAF_PROC_EXIT_CODE :: "32 word" where
  "RAF_PROC_EXIT_CODE = 0xC0C0A"

text \<open>
  The part of an \<open>App\<close> object that \<open>run\<close> touches: the flag
  \<open>allowRequestAnimationFrame\<close> and the output sink \<open>memfs.hostWrite\<close>, recorded as
  the list of payloads it was called with, oldest first.
\<close>

record app =
  allowRequestAnimationFrame :: bool
  hostWrite_calls :: "jsstring list"

text \<open>What the call \<open>this.exports._start()\<close> did: it returned, or it threw.\<close>

datatype start_outcome = Returns | Throws exn

definition ESC :: jschar where
  "ESC = 0x1B"

text \<open>
  The tail of the \<open>catch\<close> block of \<open>run\<close>: build the error message, write it through
  \<open>hostWrite\<close>, then rethrow.
\<close>

definition write_error_message :: "jsstring \<Rightarrow> jsstring \<Rightarrow> bool \<Rightarrow> exn \<Rightarrow> app \<Rightarrow> (exn + bool option) \<times> app" where
  "write_error_message host_text stack writeStack e a =
     (let msg = [ESC] @ js ''[91mError: '' @ message host_text e;
          msg = (if writeStack then msg @ js [CHR 0x0A] @ stack else msg);
          msg = msg @ [ESC] @ js ''[0m'' @ js [CHR 0x0A]
      in (Inl e, a\<lparr>hostWrite_calls := hostWrite_calls a @ [msg]\<rparr>))"

text \<open>
  \<open>App.run\<close>. \<open>Inr None\<close> is the \<open>undefined\<close> the function yields when \<open>_start\<close>
  returns; \<open>Inr (Some b)\<close> is \<open>return b\<close>; \<open>Inl e\<close> is the rethrown exception.
  \<open>host_text\<close> and \<open>stack\<close> are the \<open>message\<close> and \<open>stack\<close> the engine attached to
  the exception object.
\<close>

definition run :: "jsstring \<Rightarrow> jsstring \<Rightarrow> start_outcome \<Rightarrow> app \<Rightarrow> (exn + bool option) \<times> app" where
  "run host_text stack outcome a =
     (case outcome of
        Returns \<Rightarrow> (Inr None, a)
      | Throws e \<Rightarrow>
          (case e of
             ProcExit code \<Rightarrow>
               if code = RAF_PROC_EXIT_CODE then (Inr (Some True), a)
               else
                 let a' = a\<lparr>allowRequestAnimationFrame := False\<rparr>
                 in if code = 0 then (Inr (Some False), a')
                    else write_error_message host_text stack False e a'
           | _ \<Rightarrow> write_error_message host_text stack True e a))"

text \<open>\<open>App.proc_exit\<close>, \<open>App.clock_time_get\<close> and \<open>App.poll_oneoff\<close>: each only throws.\<close>

definition proc_exit :: "32 word \<Rightarrow> 's \<Rightarrow> (exn + 32 word) \<times> 's" where
  "proc_exit code s = (Inl (ProcExit code), s)"

definition clock_time_get :: "32 word \<Rightarrow> 64 word \<Rightarrow> 32 word \<Rightarrow> 's \<Rightarrow> (exn + 32 word) \<times> 's" where
  "clock_time_get clock_id precision time_out s =
     (Inl (NotImplemented (js ''wasi_unstable'') (js ''clock_time_get'')), s)"

definition poll_oneoff :: "32 word \<Rightarrow> 32 word \<Rightarrow> 32 word \<Rightarrow> 32 word \<Rightarrow> 's \<Rightarrow> (exn + 32 word) \<times> 's" where
  "poll_oneoff in_ptr out_ptr nsubscriptions nevents_out s =
     (Inl (NotImplemented (js ''wasi_unstable'') (js ''poll_oneoff'')), s)"

section \<open>Properties of App\<close>

text \<open>
  C1. When the guest ends through \<open>proc_exit code\<close>: for the reserved code
  \<open>RAF_PROC_EXIT_CODE\<close>, \<open>run\<close> returns \<open>true\<close> (scheduling stays allowed), throws
  nothing and leaves the App as it was; for code 0 it returns normally, writes nothing to
  the output sink and throws nothing; for every other code it clears
  \<open>allowRequestAnimationFrame\<close>, appends exactly one payload to the output sink, and that
  payload contains the exception's message, and the \<open>ProcExit\<close> is rethrown with the
  sink already holding the payload.
\<close>

theorem run_proc_exit:
  "(code = RAF_PROC_EXIT_CODE \<longrightarrow>
      run host_text stack (Throws (ProcExit code)) a = (Inr (Some True), a)) \<and>
   (code = 0 \<longrightarrow>
      fst (run host_text stack (Throws (ProcExit code)) a) = Inr (Some False) \<and>
      hostWrite_calls (snd (run host_text stack (Throws (ProcExit code)) a)) = hostWrite_calls a) \<and>
   (code \<noteq> RAF_PROC_EXIT_CODE \<and> code \<noteq> 0 \<longrightarrow>
      fst (run host_text stack (Throws (ProcExit code)) a) = Inl (ProcExit code) \<and>
      \<not> allowRequestAnimationFrame (snd (run host_text stack (Throws (ProcExit code)) a)) \<and>
      (\<exists>pre post.
         hostWrite_calls (snd (run host_text stack (Throws (ProcExit code)) a)) =
           hostWrite_calls a @ [pre @ message host_text (ProcExit code) @ post]))"
proof (intro conjI impI)
  assume "code = RAF_PROC_EXIT_CODE"
  then show "run host_text stack (Throws (ProcExit code)) a = (Inr (Some True), a)"
    by (simp add: run_def)
next
  assume z: "code = 0"
  then show "fst (run host_text stack (Throws (ProcExit code)) a) = Inr (Some False)"
    by (simp add: run_def RAF_PROC_EXIT_CODE_def)
  from z show "hostWrite_calls (snd (run host_text stack (Throws (ProcExit code)) a)) = hostWrite_calls a"
    by (simp add: run_def RAF_PROC_EXIT_CODE_def)
next
  assume nz: "code \<noteq> RAF_PROC_EXIT_CODE \<and> code \<noteq> 0"
  let ?r = "run host_text stack (Throws (ProcExit code)) a"
  have r: "?r = write_error_message host_text stack False (ProcExit code)
                  (a\<lparr>allowRequestAnimationFrame := False\<rparr>)"
    using nz by (simp add: run_def)
  show "fst ?r = Inl (ProcExit code)"
    by (simp add: r write_error_message_def)
  show "\<not> allowRequestAnimationFrame (snd ?r)"
    by (simp add: r write_error_message_def)
  have "hostWrite_calls (snd ?r) =
          hostWrite_calls a @
            [([ESC] @ js ''[91mError: '') @ message host_text (ProcExit code)
               @ ([ESC] @ js ''[0m'' @ js [CHR 0x0A])]"
    by (simp add: r write_error_message_def)
  then show "\<exists>pre post. hostWrite_calls (snd ?r) =
      hostWrite_calls a @ [pre @ message host_text (ProcExit code) @ post]"
    by blast
qed

theorem run_proc_exit_witness:
  "run [] [] (Throws (ProcExit 0xC0C0A)) \<lparr>allowRequestAnimationFrame = True, hostWrite_calls = []\<rparr>
     = (Inr (Some True), \<lparr>allowRequestAnimationFrame = True, hostWrite_calls = []\<rparr>) \<and>
   fst (run [] [] (Throws (ProcExit 0)) \<lparr>allowRequestAnimationFrame = True, hostWrite_calls = []\<rparr>)
     = Inr (Some False) \<and>
   hostWrite_calls (snd (run [] [] (Throws (ProcExit 0))
       \<lparr>allowRequestAnimationFrame = True, hostWrite_calls = []\<rparr>)) = [] \<and>
   fst (run [] [] (Throws (ProcExit 1)) \<lparr>allowRequestAnimationFrame = True, hostWrite_calls = []\<rparr>)
     = Inl (ProcExit 1) \<and>
   \<not> allowRequestAnimationFrame (snd (run [] [] (Throws (ProcExit 1))
       \<lparr>allowRequestAnimationFrame = True, hostWrite_calls = []\<rparr>)) \<and>
   hostWrite_calls (snd (run [] [] (Throws (ProcExit 1))
       \<lparr>allowRequestAnimationFrame = True, hostWrite_calls = []\<rparr>))
     = [[ESC] @ js ''[91mError: process exited with code 1.'' @ [ESC] @ js ''[0m'' @ [0x0A]]"
  using run_proc_exit [of "0xC0C0A" "[]" "[]" "\<lparr>allowRequestAnimationFrame = True, hostWrite_calls = []\<rparr>"]
        run_proc_exit [of 0 "[]" "[]" "\<lparr>allowRequestAnimationFrame = True, hostWrite_calls = []\<rparr>"]
        run_proc_exit [of 1 "[]" "[]" "\<lparr>allowRequestAnimationFrame = True, hostWrite_calls = []\<rparr>"]
  by (simp add: run_def write_error_message_def RAF_PROC_EXIT_CODE_def number_to_string_def js_def)

text \<open>
  C6. \<open>clock_time_get\<close> and \<open>poll_oneoff\<close> throw \<open>NotImplemented\<close> for the module
  \<open>wasi_unstable\<close> on every call, whatever the arguments and the state: neither ever
  yields a return value, and the state is left untouched. The failure is visible: when such
  an exception leaves \<open>_start\<close>, \<open>run\<close> writes a payload with its message to the
  output sink and throws it on.
\<close>

theorem unimplemented_syscalls_throw:
  "clock_time_get clock_id precision time_out s =
     (Inl (NotImplemented (js ''wasi_unstable'') (js ''clock_time_get'')), s) \<and>
   poll_oneoff in_ptr out_ptr nsubscriptions nevents_out s =
     (Inl (NotImplemented (js ''wasi_unstable'') (js ''poll_oneoff'')), s) \<and>
   (\<forall>v. fst (clock_time_get clock_id precision time_out s) \<noteq> Inr v) \<and>
   (\<forall>v. fst (poll_oneoff in_ptr out_ptr nsubscriptions nevents_out s) \<noteq> Inr v) \<and>
   message host_text (NotImplemented (js ''wasi_unstable'') (js ''clock_time_get''))
     = js ''wasi_unstable.clock_time_get not implemented.'' \<and>
   message host_text (NotImplemented (js ''wasi_unstable'') (js ''poll_oneoff''))
     = js ''wasi_unstable.poll_oneoff not implemented.'' \<and>
   run host_text stack (Throws (NotImplemented modname fieldname)) a =
     (Inl (NotImplemented modname fieldname),
      a\<lparr>hostWrite_calls := hostWrite_calls a @
           [[ESC] @ js ''[91mError: '' @ message host_text (NotImplemented modname fieldname)
              @ [0x0A] @ stack @ [ESC] @ js ''[0m'' @ [0x0A]]\<rparr>)"
  by (simp add: clock_time_get_def poll_oneoff_def run_def write_error_message_def js_def)

section \<open>Properties of Memory\<close>

lemma le32_split:
  "le32 (ucast v) (ucast (drop_bit 8 v)) (ucast (drop_bit 16 v)) (ucast (drop_bit 24 v)) = v"
  unfolding le32_def
  apply (rule bit_word_eqI)
  apply (auto simp add: bit_simps)
  subgoal for n by (cases "n < 24") (simp_all add: not_less)
  done

lemma u32_index_sint [simp]: "u32_index (sint (w :: 32 word)) = sint w div 4"
  by (simp add: u32_index_def)

lemma read32_write32:
  assumes "0 \<le> u32_index p" and "u32_index p < int (length mem div 4)"
  shows "read32 (write32 mem p v) p = Some v"
proof -
  let ?i = "nat (u32_index p)"
  have b: "4 * ?i + 3 < length mem"
    using assms by linarith
  have len: "length (write32 mem p v) = length mem"
    by (simp add: write32_def Let_def)
  have w: "write32 mem p v = mem[4 * ?i := ucast v, 4 * ?i + 1 := ucast (drop_bit 8 v),
               4 * ?i + 2 := ucast (drop_bit 16 v), 4 * ?i + 3 := ucast (drop_bit 24 v)]"
    using assms by (simp add: write32_def Let_def)
  have "read32 (write32 mem p v) p =
          Some (le32 (write32 mem p v ! (4 * ?i)) (write32 mem p v ! (4 * ?i + 1))
                     (write32 mem p v ! (4 * ?i + 2)) (write32 mem p v ! (4 * ?i + 3)))"
    using assms by (simp add: read32_def Let_def len)
  also have "\<dots> = Some (le32 (ucast v) (ucast (drop_bit 8 v)) (ucast (drop_bit 16 v)) (ucast (drop_bit 24 v)))"
    using b by (simp add: w)
  finally show ?thesis
    by (simp add: le32_split)
qed

lemma write_Text:
  "0 \<le> o' \<Longrightarrow> nat o' + length s \<le> length mem \<Longrightarrow>
   write_mem mem o' (Text s) =
     Inr (length s, take (nat o') mem @ map ucast s @ drop (nat o' + length s) mem)"
  by (simp add: write_mem_def set_numbers_def comp_def)

lemma readStr_loop_in_bounds:
  "0 \<le> i \<Longrightarrow> nat i + n \<le> length mem \<Longrightarrow>
   readStr_loop mem i n = map ucast (takeWhile (\<lambda>b. b \<noteq> 0) (take n (drop (nat i) mem)))"
proof (induction n arbitrary: i)
  case 0
  then show ?case by simp
next
  case (Suc n)
  from Suc.prems have lt: "nat i < length mem" by simp
  then have d: "drop (nat i) mem = mem ! nat i # drop (nat (i + 1)) mem"
    using Suc.prems(1) by (simp add: Cons_nth_drop_Suc nat_add_distrib)
  have u: "u8_at mem i = Some (mem ! nat i)"
    using lt Suc.prems(1) by (simp add: u8_at_def)
  have ih: "readStr_loop mem (i + 1) n =
              map ucast (takeWhile (\<lambda>b. b \<noteq> 0) (take n (drop (nat (i + 1)) mem)))"
    using Suc.prems by (intro Suc.IH) (simp_all add: nat_add_distrib)
  show ?case
    by (simp add: u d ih)
qed





section \<open>Properties of host_write\<close>

lemma host_write_loop_iovecs:
  "iovecs_at mem p ios \<Longrightarrow>
   host_write_loop mem p (length ios) (Some s) str =
     (Some (s + int (sum_list (map (\<lambda>io. unat (snd io)) ios))), str @ concat (map (iov_text mem) ios))"
proof (induction ios arbitrary: p s str)
  case Nil
  then show ?case by simp
next
  case (Cons io ios)
  obtain buf len where io: "io = (buf, len)" by (cases io)
  from Cons.prems io have r: "read32 mem p = Some buf" "read32 mem (p + 4) = Some len"
    and rest: "iovecs_at mem (p + 8) ios" by simp_all
  show ?case
    using Cons.IH [OF rest] r io
    by (simp add: num_add_def Memory_readStr_def iov_text_def add.assoc)
qed

lemma iov_text_in_bounds:
  assumes b: "unat (fst io) + unat (snd io) \<le> length mem"
  shows "iov_text mem io = map ucast (takeWhile (\<lambda>b. b \<noteq> 0) (iov_bytes mem io))"
proof -
  have ne: "uint (snd io) \<noteq> - 1"
    using uint_ge_0 [of "snd io"] by linarith
  have "readStr mem (uint (fst io)) (uint (snd io)) = readStr_loop mem (uint (fst io)) (unat (snd io))"
    using ne by (simp add: readStr_def)
  also have "\<dots> = map ucast (takeWhile (\<lambda>b. b \<noteq> 0)
                       (take (unat (snd io)) (drop (nat (uint (fst io))) mem)))"
    using b by (intro readStr_loop_in_bounds) simp_all
  finally show ?thesis
    by (simp add: iov_text_def iov_bytes_def)
qed

lemma host_write_result:
  assumes "sint fd \<le> 2" and "sint iovs_len = int (length ios)"
    and "iovecs_at (hostMem m) (sint iovs) ios"
  shows "host_write fd iovs iovs_len nwritten_out m =
           (Inr ESUCCESS,
            m\<lparr>hostMem := write32 (hostMem m) (sint nwritten_out)
                              (word_of_nat (sum_list (map (\<lambda>io. unat (snd io)) ios))),
              hostWrite_out := hostWrite_out m @ [concat (map (iov_text (hostMem m)) ios)]\<rparr>)"
proof -
  have n: "nat (sint iovs_len) = length ios"
    using assms(2) by simp
  have "host_write_loop (hostMem m) (sint iovs) (length ios) (Some 0) [] =
          (Some (int (sum_list (map (\<lambda>io. unat (snd io)) ios))), concat (map (iov_text (hostMem m)) ios))"
    using host_write_loop_iovecs [OF assms(3), of 0 "[]"] by simp
  then show ?thesis
    using assms(1) n by (simp add: host_write_def assert_def to_uint32_def)
qed

lemma length_takeWhile_less:
  "x \<in> set xs \<Longrightarrow> \<not> P x \<Longrightarrow> length (takeWhile P xs) < length xs"
  by (induction xs) auto

lemma iov_text_length:
  assumes "unat (fst io) + unat (snd io) \<le> length mem"
  shows "length (iov_text mem io) \<le> unat (snd io)"
    and "0 \<in> set (iov_bytes mem io) \<Longrightarrow> length (iov_text mem io) < unat (snd io)"
proof -
  have l: "length (iov_bytes mem io) = unat (snd io)"
    using assms by (simp add: iov_bytes_def)
  show "length (iov_text mem io) \<le> unat (snd io)"
    using length_takeWhile_le [of "\<lambda>b. b \<noteq> 0" "iov_bytes mem io"] l
    by (simp add: iov_text_in_bounds [OF assms])
  show "length (iov_text mem io) < unat (snd io)" if "0 \<in> set (iov_bytes mem io)"
    using length_takeWhile_less [OF that, of "\<lambda>b. b \<noteq> 0"] l
    by (simp add: iov_text_in_bounds [OF assms])
qed

lemma concat_iov_text_length_le:
  "\<forall>io \<in> set ios. unat (fst io) + unat (snd io) \<le> length mem \<Longrightarrow>
   length (concat (map (iov_text mem) ios)) \<le> sum_list (map (\<lambda>io. unat (snd io)) ios)"
proof (induction ios)
  case Nil
  then show ?case by simp
next
  case (Cons io ios)
  have "length (iov_text mem io) \<le> unat (snd io)"
    using Cons.prems by (intro iov_text_length(1)) simp
  moreover have "length (concat (map (iov_text mem) ios)) \<le> sum_list (map (\<lambda>io. unat (snd io)) ios)"
    using Cons.prems by (intro Cons.IH) simp
  ultimately show ?case by simp
qed

lemma concat_iov_text_length_less:
  "\<forall>io \<in> set ios. unat (fst io) + unat (snd io) \<le> length mem \<Longrightarrow>
   \<exists>io \<in> set ios. 0 \<in> set (iov_bytes mem io) \<Longrightarrow>
   length (concat (map (iov_text mem) ios)) < sum_list (map (\<lambda>io. unat (snd io)) ios)"
proof (induction ios)
  case Nil
  then show ?case by simp
next
  case (Cons io ios)
  have b_io: "unat (fst io) + unat (snd io) \<le> length mem"
    and b_ios: "\<forall>io \<in> set ios. unat (fst io) + unat (snd io) \<le> length mem"
    using Cons.prems(1) by simp_all
  have le_io: "length (iov_text mem io) \<le> unat (snd io)"
    using b_io by (rule iov_text_length(1))
  have le_ios: "length (concat (map (iov_text mem) ios)) \<le> sum_list (map (\<lambda>io. unat (snd io)) ios)"
    using b_ios by (rule concat_iov_text_length_le)
  from Cons.prems(2) consider "0 \<in> set (iov_bytes mem io)" | "\<exists>io \<in> set ios. 0 \<in> set (iov_bytes mem io)"
    by auto
  then show ?case
  proof cases
    case 1
    then have "length (iov_text mem io) < unat (snd io)"
      using b_io iov_text_length(2) by blast
    with le_ios show ?thesis by simp
  next
    case 2
    then have "length (concat (map (iov_text mem) ios)) < sum_list (map (\<lambda>io. unat (snd io)) ios)"
      using b_ios Cons.IH by blast
    with le_io show ?thesis by simp
  qed
qed

lemma concat_iov_text_no_nul:
  "\<forall>io \<in> set ios. unat (fst io) + unat (snd io) \<le> length mem \<Longrightarrow>
   \<forall>io \<in> set ios. 0 \<notin> set (iov_bytes mem io) \<Longrightarrow>
   concat (map (iov_text mem) ios) = map ucast (concat (map (iov_bytes mem) ios))"
proof (induction ios)
  case Nil
  then show ?case by simp
next
  case (Cons io ios)
  have "iov_text mem io = map ucast (takeWhile (\<lambda>b. b \<noteq> 0) (iov_bytes mem io))"
    using Cons.prems(1) by (intro iov_text_in_bounds) simp
  moreover have "takeWhile (\<lambda>b. b \<noteq> 0) (iov_bytes mem io) = iov_bytes mem io"
    using Cons.prems(2) by (intro takeWhile_eq_all_conv [THEN iffD2]) auto
  moreover have "concat (map (iov_text mem) ios) = map ucast (concat (map (iov_bytes mem) ios))"
    using Cons.prems by (intro Cons.IH) simp_all
  ultimately show ?case by simp
qed

lemma concat_iov_text_in_bounds:
  "\<forall>io \<in> set ios. unat (fst io) + unat (snd io) \<le> length mem \<Longrightarrow>
   concat (map (iov_text mem) ios) =
     concat (map (\<lambda>io. map ucast (takeWhile (\<lambda>b. b \<noteq> 0) (iov_bytes mem io))) ios)"
  by (induction ios) (simp_all add: iov_text_in_bounds)

text \<open>
  C9. For a call of \<open>host_write\<close> with \<open>fd \<le> 2\<close> whose iovec array and buffers lie
  inside the guest memory: the count stored at \<open>nwritten_out\<close> is the sum of the iovec
  length fields (as the 32-bit number a \<open>Uint32Array\<close> holds), whatever the buffers
  contain; the text given to \<open>hostWrite\<close> is, iovec by iovec, the buffer's bytes before
  its first 0 byte; it is never longer than the reported count, and strictly shorter as
  soon as one buffer contains a 0 byte.
\<close>

theorem host_write_count_and_text:
  assumes fd: "sint fd \<le> 2"
    and n: "sint iovs_len = int (length ios)"
    and iov: "iovecs_at (hostMem m) (sint iovs) ios"
    and inb: "\<forall>io \<in> set ios. unat (fst io) + unat (snd io) \<le> length (hostMem m)"
    and nw: "0 \<le> sint nwritten_out" "sint nwritten_out div 4 < int (length (hostMem m) div 4)"
  shows "\<exists>m'. host_write fd iovs iovs_len nwritten_out m = (Inr ESUCCESS, m') \<and>
           read32 (hostMem m') (sint nwritten_out)
             = Some (word_of_nat (sum_list (map (\<lambda>io. unat (snd io)) ios))) \<and>
           hostWrite_out m' = hostWrite_out m @
             [concat (map (\<lambda>io. map ucast (takeWhile (\<lambda>b. b \<noteq> 0) (iov_bytes (hostMem m) io))) ios)] \<and>
           length (last (hostWrite_out m')) \<le> sum_list (map (\<lambda>io. unat (snd io)) ios) \<and>
           ((\<exists>io \<in> set ios. 0 \<in> set (iov_bytes (hostMem m) io)) \<longrightarrow>
              length (last (hostWrite_out m')) < sum_list (map (\<lambda>io. unat (snd io)) ios))"
proof -
  let ?total = "sum_list (map (\<lambda>io. unat (snd io)) ios)"
  let ?text = "concat (map (iov_text (hostMem m)) ios)"
  let ?m' = "m\<lparr>hostMem := write32 (hostMem m) (sint nwritten_out) (word_of_nat ?total),
               hostWrite_out := hostWrite_out m @ [?text]\<rparr>"
  have r: "host_write fd iovs iovs_len nwritten_out m = (Inr ESUCCESS, ?m')"
    using fd n iov by (rule host_write_result)
  have idx: "0 \<le> u32_index (sint nwritten_out)"
    using nw(1) by simp
  have c: "read32 (hostMem ?m') (sint nwritten_out) = Some (word_of_nat ?total)"
    using read32_write32 [OF idx, of "hostMem m" "word_of_nat ?total"] nw(2) by simp
  have t: "hostWrite_out ?m' = hostWrite_out m @
      [concat (map (\<lambda>io. map ucast (takeWhile (\<lambda>b. b \<noteq> 0) (iov_bytes (hostMem m) io))) ios)]"
    using concat_iov_text_in_bounds [OF inb] by simp
  have le: "length (last (hostWrite_out ?m')) \<le> ?total"
    using concat_iov_text_length_le [OF inb] by simp
  have less: "length (last (hostWrite_out ?m')) < ?total"
    if "\<exists>io \<in> set ios. 0 \<in> set (iov_bytes (hostMem m) io)"
    using concat_iov_text_length_less [OF inb that] by simp
  from r c t le less show ?thesis
    by blast
qed

theorem host_write_count_and_text_witness:
  "sint (1 :: 32 word) \<le> 2 \<and> iovecs_at nul_mem 0 [(8, 3)] \<and>
   iov_bytes nul_mem (8, 3) = [72, 0, 105] \<and>
   fst (host_write 1 0 1 12 (memfs0 nul_mem)) = Inr ESUCCESS \<and>
   read32 (hostMem (snd (host_write 1 0 1 12 (memfs0 nul_mem)))) 12 = Some 3 \<and>
   hostWrite_out (snd (host_write 1 0 1 12 (memfs0 nul_mem))) = [js ''H''] \<and>
   length (js ''H'') < 3"
proof -
  have h1: "sint (1 :: 32 word) \<le> 2" by simp
  have h2: "sint (1 :: 32 word) = int (length [(8 :: 32 word, 3 :: 32 word)])" by simp
  have h3: "iovecs_at (hostMem (memfs0 nul_mem)) (sint (0 :: 32 word)) [(8, 3)]" by code_simp
  have h4: "\<forall>io \<in> set [(8 :: 32 word, 3 :: 32 word)]. unat (fst io) + unat (snd io) \<le> length (hostMem (memfs0 nul_mem))"
    by (simp add: memfs0_def nul_mem_def)
  have h5: "0 \<le> sint (12 :: 32 word)" by simp
  have h6: "sint (12 :: 32 word) div 4 < int (length (hostMem (memfs0 nul_mem)) div 4)"
    by (simp add: memfs0_def nul_mem_def)
  have e: "host_write 1 0 1 12 (memfs0 nul_mem) =
      (Inr ESUCCESS, (memfs0 nul_mem)\<lparr>hostMem := [8, 0, 0, 0, 3, 0, 0, 0, 72, 0, 105, 0, 3, 0, 0, 0],
         hostWrite_out := [js ''H'']\<rparr>)"
    by code_simp
  have b: "iov_bytes nul_mem (8, 3) = [72, 0, 105]" by code_simp
  have c: "read32 [8, 0, 0, 0, 3, 0, 0, 0, 72, 0, 105, 0, 3, 0, 0, 0] 12 = Some 3" by code_simp
  have i: "iovecs_at nul_mem 0 [(8, 3)]" by code_simp
  from host_write_count_and_text [OF h1 h2 h3 h4 h5 h6]
  have f: "fst (host_write 1 0 1 12 (memfs0 nul_mem)) = Inr ESUCCESS"
    by (elim exE conjE) simp
  have s: "snd (host_write 1 0 1 12 (memfs0 nul_mem)) =
      (memfs0 nul_mem)\<lparr>hostMem := [8, 0, 0, 0, 3, 0, 0, 0, 72, 0, 105, 0, 3, 0, 0, 0],
         hostWrite_out := [js ''H'']\<rparr>"
    by (simp add: e)
  show ?thesis
    using h1 i b f c by (simp add: s js_def)
qed


text \<open>
  C4, as amended. For a call of \<open>host_write\<close> with \<open>fd\<close> 0, 1 or 2 whose iovec array
  and buffers lie inside the guest memory: \<open>hostWrite\<close> is called exactly once, with the
  concatenation, in order, of each iovec buffer cut at its first 0 byte (the whole buffers
  when none contains a 0 byte), and the count stored at \<open>nwritten_out\<close> is the sum of
  the iovec lengths. Writing the 6 bytes of \<open>Hello\<close> and a newline to fd 1 gives one
  payload with that text and the count 6.
\<close>

theorem host_write_forwards_truncated_buffers_once:
  assumes fd: "fd \<in> {0, 1, 2}"
    and n: "sint iovs_len = int (length ios)"
    and iov: "iovecs_at (hostMem m) (sint iovs) ios"
    and inb: "\<forall>io \<in> set ios. unat (fst io) + unat (snd io) \<le> length (hostMem m)"
    and nw: "0 \<le> sint nwritten_out" "sint nwritten_out div 4 < int (length (hostMem m) div 4)"
  shows "\<exists>m'. host_write fd iovs iovs_len nwritten_out m = (Inr ESUCCESS, m') \<and>
           hostWrite_out m' = hostWrite_out m @
             [concat (map (\<lambda>io. map ucast (takeWhile (\<lambda>b. b \<noteq> 0) (iov_bytes (hostMem m) io))) ios)] \<and>
           ((\<forall>io \<in> set ios. 0 \<notin> set (iov_bytes (hostMem m) io)) \<longrightarrow>
              hostWrite_out m' = hostWrite_out m @ [map ucast (concat (map (iov_bytes (hostMem m)) ios))]) \<and>
           read32 (hostMem m') (sint nwritten_out)
             = Some (word_of_nat (sum_list (map (\<lambda>io. unat (snd io)) ios)))"
proof -
  let ?total = "sum_list (map (\<lambda>io. unat (snd io)) ios)"
  let ?text = "concat (map (iov_text (hostMem m)) ios)"
  let ?m' = "m\<lparr>hostMem := write32 (hostMem m) (sint nwritten_out) (word_of_nat ?total),
               hostWrite_out := hostWrite_out m @ [?text]\<rparr>"
  have "sint fd \<le> 2"
    using fd by auto
  then have r: "host_write fd iovs iovs_len nwritten_out m = (Inr ESUCCESS, ?m')"
    using n iov by (rule host_write_result)
  have idx: "0 \<le> u32_index (sint nwritten_out)"
    using nw(1) by simp
  have c: "read32 (hostMem ?m') (sint nwritten_out) = Some (word_of_nat ?total)"
    using read32_write32 [OF idx, of "hostMem m" "word_of_nat ?total"] nw(2) by simp
  have t: "hostWrite_out ?m' = hostWrite_out m @
      [concat (map (\<lambda>io. map ucast (takeWhile (\<lambda>b. b \<noteq> 0) (iov_bytes (hostMem m) io))) ios)]"
    using concat_iov_text_in_bounds [OF inb] by simp
  have whole: "hostWrite_out ?m' = hostWrite_out m @ [map ucast (concat (map (iov_bytes (hostMem m)) ios))]"
    if "\<forall>io \<in> set ios. 0 \<notin> set (iov_bytes (hostMem m) io)"
    using concat_iov_text_no_nul [OF inb that] by simp
  from r c t whole show ?thesis
    by blast
qed

theorem host_write_forwards_truncated_buffers_once_witness:
  "(1 :: 32 word) \<in> {0, 1, 2} \<and> iovecs_at hello_mem 0 [(8, 6)] \<and>
   iov_bytes hello_mem (8, 6) = [72, 101, 108, 108, 111, 10] \<and>
   fst (host_write 1 0 1 16 (memfs0 hello_mem)) = Inr ESUCCESS \<and>
   hostWrite_out (snd (host_write 1 0 1 16 (memfs0 hello_mem))) = [js ''Hello'' @ [10]] \<and>
   read32 (hostMem (snd (host_write 1 0 1 16 (memfs0 hello_mem)))) 16 = Some 6"
proof -
  have h1: "(1 :: 32 word) \<in> {0, 1, 2}" by simp
  have h2: "sint (1 :: 32 word) = int (length [(8 :: 32 word, 6 :: 32 word)])" by simp
  have h3: "iovecs_at (hostMem (memfs0 hello_mem)) (sint (0 :: 32 word)) [(8, 6)]" by code_simp
  have h4: "\<forall>io \<in> set [(8 :: 32 word, 6 :: 32 word)].
              unat (fst io) + unat (snd io) \<le> length (hostMem (memfs0 hello_mem))"
    by (simp add: memfs0_def hello_mem_def)
  have h5: "0 \<le> sint (16 :: 32 word)" by simp
  have h6: "sint (16 :: 32 word) div 4 < int (length (hostMem (memfs0 hello_mem)) div 4)"
    by (simp add: memfs0_def hello_mem_def)
  from host_write_forwards_truncated_buffers_once [OF h1 h2 h3 h4 h5 h6]
  have f: "fst (host_write 1 0 1 16 (memfs0 hello_mem)) = Inr ESUCCESS"
    by (elim exE conjE) simp
  have e: "host_write 1 0 1 16 (memfs0 hello_mem) =
      (Inr ESUCCESS,
       (memfs0 hello_mem)\<lparr>hostMem := [8, 0, 0, 0, 6, 0, 0, 0, 72, 101, 108, 108, 111, 10, 0, 0, 6, 0, 0, 0],
         hostWrite_out := [js ''Hello'' @ [10]]\<rparr>)"
    by code_simp
  have s: "snd (host_write 1 0 1 16 (memfs0 hello_mem)) =
      (memfs0 hello_mem)\<lparr>hostMem := [8, 0, 0, 0, 6, 0, 0, 0, 72, 101, 108, 108, 111, 10, 0, 0, 6, 0, 0, 0],
         hostWrite_out := [js ''Hello'' @ [10]]\<rparr>"
    by (simp add: e)
  have b: "iov_bytes hello_mem (8, 6) = [72, 101, 108, 108, 111, 10]" by code_simp
  have c: "read32 [8, 0, 0, 0, 6, 0, 0, 0, 72, 101, 108, 108, 111, 10, 0, 0, 6, 0, 0, 0] 16 = Some 6"
    by code_simp
  have i: "iovecs_at hello_mem 0 [(8, 6)]" by code_simp
  show ?thesis
    using i b f c by (simp add: s)
qed

text \<open>
  C4 as stated fails on a buffer that contains a 0 byte: for the 3-byte buffer 72, 0, 105
  written to fd 1 the payload is the single code unit 72, not the three bytes of the
  buffer.
\<close>

theorem host_write_payload_counterexample:
  "(1 :: 32 word) \<in> {0, 1, 2} \<and> iovecs_at nul_mem 0 [(8, 3)] \<and>
   iov_bytes nul_mem (8, 3) = [72, 0, 105] \<and>
   hostWrite_out (snd (host_write 1 0 1 12 (memfs0 nul_mem))) = [[72]] \<and>
   hostWrite_out (snd (host_write 1 0 1 12 (memfs0 nul_mem)))
     \<noteq> hostWrite_out (memfs0 nul_mem) @ [map ucast (concat (map (iov_bytes nul_mem) [(8, 3)]))]"
  by code_simp


section \<open>Properties of host_read\<close>

lemma length_store_chars [simp]: "length (store_chars view i cs) = length view"
  by (induction cs arbitrary: view i) simp_all

lemma length_deliver_input [simp]: "length (deliver_input v view) = length view"
  by (simp add: deliver_input_def)




lemma atomics_wait_blocks:
  "length sm mod 4 = 0 \<Longrightarrow> read32 sm 0 = Some 0 \<Longrightarrow> atomics_wait sm None = None"
  by (simp add: atomics_wait_def)

lemma atomics_wait_delivers:
  "length sm mod 4 = 0 \<Longrightarrow> read32 sm 0 = Some 0 \<Longrightarrow>
   atomics_wait sm (Some v) = Some (Inr (deliver_input v sm))"
  by (simp add: atomics_wait_def)



lemma store_chars_eq:
  "i + length cs \<le> length view \<Longrightarrow>
   store_chars view i cs = take i view @ map ucast cs @ drop (i + length cs) view"
proof (induction cs arbitrary: view i)
  case Nil
  then show ?case by simp
next
  case (Cons c cs)
  have i: "i < length view"
    using Cons.prems by simp
  have "store_chars (view[i := ucast c]) (Suc i) cs =
          take (Suc i) (view[i := ucast c]) @ map ucast cs @ drop (Suc i + length cs) (view[i := ucast c])"
    using Cons.prems by (intro Cons.IH) simp
  also have "take (Suc i) (view[i := ucast c]) = take i view @ [ucast c]"
    using i by (simp add: take_Suc_conv_app_nth)
  also have "drop (Suc i + length cs) (view[i := ucast c]) = drop (i + length (c # cs)) view"
    by simp
  finally show ?case by simp
qed

lemma deliver_input_eq:
  assumes "length v < length view"
  shows "deliver_input v view = map ucast v @ 0 # drop (length v + 1) view"
proof -
  have "store_chars view 0 v = map ucast v @ drop (length v) view"
    using assms store_chars_eq [of 0 v view] by simp
  moreover have "(map ucast v @ drop (length v) view)[length v := 0]
                  = map ucast v @ (drop (length v) view)[0 := 0]"
    by (simp add: list_update_append)
  moreover have "(drop (length v) view)[0 := (0::byte)] = 0 # drop (length v + 1) view"
    using assms by (cases "drop (length v) view") (simp_all add: drop_Suc drop_tl)
  ultimately show ?thesis
    by (simp add: deliver_input_def)
qed

lemma drop_eq_ConsD:
  assumes "drop i xs = y # ys"
  shows "i < length xs" and "xs ! i = y" and "drop (Suc i) xs = ys"
proof -
  show i: "i < length xs"
    using assms by (cases "i < length xs") simp_all
  from Cons_nth_drop_Suc [OF i] assms show "xs ! i = y" and "drop (Suc i) xs = ys"
    by simp_all
qed

lemma scan_sharedMem_finds:
  "drop i sm = xs @ 0 # rest \<Longrightarrow> 0 \<notin> set xs \<Longrightarrow>
   scan_sharedMem sm i str = Some (str @ map ucast xs)"
proof (induction xs arbitrary: i str)
  case Nil
  then have "i < length sm" "sm ! i = 0"
    using drop_eq_ConsD [of i sm 0 rest] by simp_all
  then have "u8_at sm (int i) = Some 0"
    by (simp add: u8_at_def)
  then show ?case
    by (subst scan_sharedMem.simps) simp
next
  case (Cons x xs)
  from Cons.prems(1) have d: "i < length sm" "sm ! i = x" "drop (Suc i) sm = xs @ 0 # rest"
    using drop_eq_ConsD [of i sm x "xs @ 0 # rest"] by simp_all
  have x: "x \<noteq> 0"
    using Cons.prems(2) by auto
  have u: "u8_at sm (int i) = Some x"
    using d by (simp add: u8_at_def)
  have "scan_sharedMem sm (i + 1) (str @ [ucast x]) = Some ((str @ [ucast x]) @ map ucast xs)"
    using d(3) Cons.prems(2) by (intro Cons.IH) simp_all
  then show ?case
    using u x by (subst scan_sharedMem.simps) simp
qed

lemma scan_delivered_input:
  assumes "length v < length sm" and "(0::byte) \<notin> ucast ` set v"
  shows "scan_sharedMem (deliver_input v sm) 0 [] = Some (map (\<lambda>c. ucast (ucast c :: byte)) v)"
proof -
  have "drop 0 (deliver_input v sm) = map ucast v @ 0 # drop (length v + 1) sm"
    using deliver_input_eq [OF assms(1)] by simp
  moreover have "(0::byte) \<notin> set (map ucast v)"
    using assms(2) by simp
  ultimately have "scan_sharedMem (deliver_input v sm) 0 [] = Some ([] @ map ucast (map ucast v :: byte list))"
    by (rule scan_sharedMem_finds)
  then show ?thesis
    by (simp add: comp_def)
qed




text \<open>
  What \<open>host_read\<close> does with one iovec (of any length), and with any number of
  iovecs of non-zero length whose buffers lie inside the memory and off the iovec array:
  it stores the minimum of the total capacity and the length of the delivered input, and
  the memory holds the input scattered over the iovecs in order.
\<close>

lemma host_read_loop_single:
  assumes iov: "read32 (hostMem m) iovs = Some buf" "read32 (hostMem m) (iovs + 4) = Some len"
    and inb: "unat buf + unat len \<le> length (hostMem m)"
    and pos: "stdinStrPos m = Some 0"
  shows "host_read_loop (Suc 0) iovs (Some 0) m =
           (Inr (Some (int (min (unat len) (length (stdinStr m))))),
            m\<lparr>hostMem := take (unat buf) (hostMem m)
                           @ map ucast (take (min (unat len) (length (stdinStr m))) (stdinStr m))
                           @ drop (unat buf + min (unat len) (length (stdinStr m))) (hostMem m),
              stdinStrPos := Some (int (min (unat len) (length (stdinStr m))))\<rparr>)"
proof -
  let ?k = "min (unat len) (length (stdinStr m))"
  have l: "math_min (Some (uint len)) (num_sub (Some (int (length (stdinStr m)))) (Some 0))
            = Some (int ?k)"
  proof -
    have "uint len = int (unat len)"
      by simp
    then have "min (uint len) (int (length (stdinStr m))) = int ?k"
      by (simp only: min_def of_nat_le_iff if_distrib [of int])
    then show ?thesis
      by (simp add: math_min_def num_sub_def del: of_nat_min)
  qed
  show ?thesis
  proof (cases "?k = 0")
    case True
    then have "m = m\<lparr>hostMem := take (unat buf) (hostMem m) @ map ucast (take ?k (stdinStr m))
                           @ drop (unat buf + ?k) (hostMem m),
                      stdinStrPos := Some (int ?k)\<rparr>"
      using pos by simp
    then show ?thesis
      using True by (simp add: iov pos l Let_def del: min_less_iff_conj)
  next
    case False
    have s: "substr (stdinStr m) (Some 0) (Some (int ?k)) = take ?k (stdinStr m)"
      by (simp add: substr_def)
    have w: "write_mem (hostMem m) (uint buf) (Text (take ?k (stdinStr m))) =
               Inr (length (take ?k (stdinStr m)),
                    take (nat (uint buf)) (hostMem m) @ map ucast (take ?k (stdinStr m))
                      @ drop (nat (uint buf) + length (take ?k (stdinStr m))) (hostMem m))"
      using inb by (intro write_Text) simp_all
    have lk: "length (take ?k (stdinStr m)) = ?k"
      by simp
    show ?thesis
      using False
      by (simp add: iov pos l s w Let_def num_add_def del: min_less_iff_conj length_take take_take)
         (simp add: lk)
  qed
qed


lemma host_read_single_iovec:
  assumes fd: "sint fd = 0" and n: "sint iovs_len = 1"
    and al: "length (sharedMem m) mod 4 = 0"
    and mb: "read32 (sharedMem m) 0 = Some 0"
    and v: "length v < length (sharedMem m)" "(0::byte) \<notin> ucast ` set v"
    and iov: "read32 (hostMem m) (sint iovs) = Some buf" "read32 (hostMem m) (sint iovs + 4) = Some len"
    and inb: "unat buf + unat len \<le> length (hostMem m)"
  shows "host_read fd iovs iovs_len nread (Some v) m =
           Some (Inr ESUCCESS,
                 m\<lparr>hostRead_requests := hostRead_requests m + 1,
                   stdinStr := map (\<lambda>c. ucast (ucast c :: byte)) v,
                   stdinStrPos := Some (int (min (unat len) (length v))),
                   sharedMem := replicate (length (sharedMem m)) 0,
                   hostMem := write32 (take (unat buf) (hostMem m)
                                         @ map ucast (take (min (unat len) (length v)) v)
                                         @ drop (unat buf + min (unat len) (length v)) (hostMem m))
                                (sint nread) (word_of_nat (min (unat len) (length v)))\<rparr>)"
proof -
  let ?s = "map (\<lambda>c. ucast (ucast c :: byte) :: jschar) v"
  let ?k = "min (unat len) (length v)"
  let ?m2 = "m\<lparr>hostRead_requests := Suc (hostRead_requests m), stdinStr := ?s,
               stdinStrPos := Some 0, sharedMem := replicate (length (sharedMem m)) 0\<rparr>"
  have w: "atomics_wait (sharedMem m) (Some v) = Some (Inr (deliver_input v (sharedMem m)))"
    using al mb by (rule atomics_wait_delivers)
  have sc: "scan_sharedMem (deliver_input v (sharedMem m)) 0 [] = Some ?s"
    using v by (rule scan_delivered_input)
  have "ucast (ucast (ucast x :: byte) :: jschar) = (ucast x :: byte)" for x :: jschar
    by (rule bit_word_eqI) (auto simp add: bit_simps)
  then have b: "map ucast (take k ?s) = (map ucast (take k v) :: byte list)" for k
    by (simp add: take_map comp_def)
  have lp: "host_read_loop (Suc 0) (sint iovs) (Some 0) ?m2 =
           (Inr (Some (int ?k)),
            ?m2\<lparr>hostMem := take (unat buf) (hostMem m) @ map ucast (take ?k v)
                             @ drop (unat buf + ?k) (hostMem m),
                 stdinStrPos := Some (int ?k)\<rparr>)"
  proof -
    have "read32 (hostMem ?m2) (sint iovs) = Some buf" "read32 (hostMem ?m2) (sint iovs + 4) = Some len"
      "unat buf + unat len \<le> length (hostMem ?m2)" "stdinStrPos ?m2 = Some 0"
      using iov inb by simp_all
    from host_read_loop_single [OF this] show ?thesis
      by (simp add: b del: host_read_loop.simps)
  qed
  show ?thesis
    using fd n
    by (simp add: host_read_def w sc assert_def Let_def lp to_uint32_def setStdinStr_def
          del: host_read_loop.simps)
qed

lemma scatter_Nil [simp]: "scatter mem [] ios = mem"
  by (cases ios) auto

lemma word_outside_mono: "word_outside q b l \<Longrightarrow> l' \<le> l \<Longrightarrow> word_outside q b l'"
  by (fastforce simp add: word_outside_def)

lemma headers_outside_mono: "headers_outside p n b l \<Longrightarrow> l' \<le> l \<Longrightarrow> headers_outside p n b l'"
  by (induction n arbitrary: p) (auto intro: word_outside_mono)

lemma nth_splice_outside:
  assumes "b + length xs \<le> length mem" and "j < length mem" and "j < b \<or> b + length xs \<le> j"
  shows "(take b mem @ xs @ drop (b + length xs) mem) ! j = mem ! j"
proof (cases "j < b")
  case True
  then show ?thesis
    using assms by (simp add: nth_append)
next
  case False
  then have j: "b + length xs \<le> j"
    using assms(3) by simp
  have bl: "min (length mem) b = b"
    using assms(1) by simp
  have "(take b mem @ xs @ drop (b + length xs) mem) ! j
          = (xs @ drop (b + length xs) mem) ! (j - b)"
    using False by (simp add: nth_append bl)
  also have "\<dots> = drop (b + length xs) mem ! (j - b - length xs)"
  proof -
    have "\<not> j - b < length xs"
      using j by linarith
    then show ?thesis
      by (simp only: nth_append if_False)
  qed
  also have "\<dots> = mem ! (b + length xs + (j - b - length xs))"
    using assms(1) by (intro nth_drop) 
  also have "b + length xs + (j - b - length xs) = j"
    using j by simp
  finally show ?thesis .
qed

lemma read32_splice:
  assumes b: "b + length xs \<le> length mem" and o: "word_outside q b (length xs)"
  shows "read32 (take b mem @ xs @ drop (b + length xs) mem) q = read32 mem q"
proof -
  let ?mem' = "take b mem @ xs @ drop (b + length xs) mem"
  have len: "length ?mem' = length mem"
    using b by simp
  show ?thesis
  proof (cases "0 \<le> u32_index q \<and> u32_index q < int (length mem div 4)")
    case False
    then show ?thesis
      by (simp only: read32_def Let_def len if_False)
  next
    case True
    let ?i = "nat (u32_index q)"
    have inb: "4 * ?i + 3 < length mem"
      using True by linarith
    have "?mem' ! (4 * ?i + t) = mem ! (4 * ?i + t)" if "t < 4" for t
      using b inb that o by (intro nth_splice_outside) (auto simp add: word_outside_def)
    from this [of 0] this [of 1] this [of 2] this [of 3] show ?thesis
      by (simp only: read32_def Let_def len) simp
  qed
qed

lemma iovecs_at_splice:
  "iovecs_at mem p ios \<Longrightarrow> b + length xs \<le> length mem \<Longrightarrow>
   headers_outside p (length ios) b (length xs) \<Longrightarrow>
   iovecs_at (take b mem @ xs @ drop (b + length xs) mem) p ios"
proof (induction ios arbitrary: p)
  case Nil
  then show ?case by simp
next
  case (Cons io ios)
  obtain buf len where io: "io = (buf, len)" by (cases io)
  from Cons.prems io show ?case
    by (simp add: read32_splice Cons.IH)
qed


lemma host_read_loop_scatter:
  assumes "iovecs_at (hostMem m) p ios"
    and "\<forall>io \<in> set ios. snd io \<noteq> 0 \<and> unat (fst io) + unat (snd io) \<le> length (hostMem m) \<and>
           headers_outside p (length ios) (unat (fst io)) (unat (snd io))"
    and "stdinStrPos m = Some (int pos)" and "pos \<le> length (stdinStr m)"
  shows "host_read_loop (length ios) p (Some sz) m =
           (Inr (Some (sz + int (min (iov_total ios) (length (stdinStr m) - pos)))),
            m\<lparr>hostMem := scatter (hostMem m) (drop pos (stdinStr m)) ios,
              stdinStrPos := Some (int (pos + min (iov_total ios) (length (stdinStr m) - pos)))\<rparr>)"
  using assms
proof (induction ios arbitrary: p sz m pos)
  case Nil
  then show ?case
    by (simp add: iov_total_def)
next
  case (Cons io ios)
  obtain buf len where io: "io = (buf, len)" by (cases io)
  let ?mem = "hostMem m"
  let ?s = "stdinStr m"
  let ?s' = "drop pos ?s"
  let ?r = "length ?s - pos"
  let ?lw = "min (unat len) ?r"
  from Cons.prems(1) io have hd: "read32 ?mem p = Some buf" "read32 ?mem (p + 4) = Some len"
    and tl: "iovecs_at ?mem (p + 8) ios"
    by simp_all
  from Cons.prems(2) io have len0: "len \<noteq> 0" and inb: "unat buf + unat len \<le> length ?mem"
    and out: "headers_outside (p + 8) (length ios) (unat buf) (unat len)"
    by simp_all
  have len_pos: "0 < unat len"
    using len0 by (simp add: unat_gt_0)
  have lw: "math_min (Some (uint len)) (num_sub (Some (int (length ?s))) (Some (int pos)))
              = Some (int ?lw)"
  proof -
    have "uint len = int (unat len)"
      by simp
    moreover have "int (length ?s) - int pos = int ?r"
      using Cons.prems(4) by simp
    ultimately have "min (uint len) (int (length ?s) - int pos) = int ?lw"
      by (simp only: min_def of_nat_le_iff if_distrib [of int])
    then show ?thesis
      by (simp add: math_min_def num_sub_def del: of_nat_min)
  qed
  have tot: "iov_total (io # ios) = unat len + iov_total ios"
    by (simp add: iov_total_def io)
  show ?case
  proof (cases "?r = 0")
    case True
    then have e: "?s' = []"
      by simp
    have "host_read_loop (length (io # ios)) p (Some sz) m = (Inr (Some sz), m)"
      using True by (simp add: hd Cons.prems(3) lw Let_def del: of_nat_min)
    moreover have "m = m\<lparr>hostMem := scatter ?mem ?s' (io # ios),
                            stdinStrPos := Some (int (pos + min (iov_total (io # ios)) ?r))\<rparr>"
      using True Cons.prems(3) by (simp add: e del: scatter.simps)
    ultimately show ?thesis
      using True by simp
  next
    case False
    then have ne: "?s' \<noteq> []"
      by simp
    have lw_pos: "?lw \<noteq> 0"
      using False len_pos by simp
    have ls': "length ?s' = ?r"
      by simp
    have sub: "substr ?s (Some (int pos)) (Some (int ?lw)) = take ?lw ?s'"
      by (simp add: substr_def)
    have ltake: "length (take ?lw ?s') = ?lw"
      by simp
    let ?mem1 = "take (unat buf) ?mem @ map ucast (take ?lw ?s') @ drop (unat buf + ?lw) ?mem"
    have w: "write_mem ?mem (uint buf) (Text (take ?lw ?s')) = Inr (?lw, ?mem1)"
    proof -
      have "nat (uint buf) + length (take ?lw ?s') \<le> length ?mem"
        using inb by simp
      from write_Text [OF _ this] show ?thesis
        by (simp only: ltake) simp
    qed
    let ?m1 = "m\<lparr>hostMem := ?mem1, stdinStrPos := Some (int (pos + ?lw))\<rparr>"
    have step: "host_read_loop (length (io # ios)) p (Some sz) m =
                  (if ?lw \<noteq> unat len then (Inr (Some (sz + int ?lw)), ?m1)
                   else host_read_loop (length ios) (p + 8) (Some (sz + int ?lw)) ?m1)"
    proof -
      have a: "int ?lw \<noteq> 0"
        using lw_pos by linarith
      have b: "(Some (int ?lw) \<noteq> Some (uint len)) = (?lw \<noteq> unat len)"
      proof -
        have "uint len = int (unat len)"
          by simp
        then show ?thesis
          by (simp only: option.inject of_nat_eq_iff)
      qed
      have c: "Some (int ?lw) \<noteq> Some 0" "Some (int ?lw) \<noteq> None"
        using a by simp_all
      have d: "num_add (Some sz) (Some (int ?lw)) = Some (sz + int ?lw)"
        "num_add (Some (int pos)) (Some (int ?lw)) = Some (int (pos + ?lw))"
        by (simp_all add: num_add_def del: of_nat_min)
      have "host_read_loop (Suc (length ios)) p (Some sz) m =
                  (if ?lw \<noteq> unat len then (Inr (Some (sz + int ?lw)), ?m1)
                   else host_read_loop (length ios) (p + 8) (Some (sz + int ?lw)) ?m1)"
        by (simp only: host_read_loop.simps Let_def hd option.map Cons.prems(3) lw c sub w d b
              option.case sum.case prod.case if_False if_True simp_thms)
      then show ?thesis
        by (simp only: length_Cons)
    qed
    show ?thesis
    proof (cases "?lw = unat len")
      case short: False
      then have r: "?r < unat len" "?lw = ?r"
        by (simp_all add: min_def split: if_splits)
      have e1: "host_read_loop (length (io # ios)) p (Some sz) m = (Inr (Some (sz + int ?lw)), ?m1)"
        using short by (simp only: step simp_thms if_True)
      have k: "min (iov_total (io # ios)) ?r = ?lw"
        using r by (simp add: tot)
      have sc: "scatter ?mem ?s' (io # ios) = ?mem1"
        using ne r by (simp add: io ls' min_def)
      show ?thesis
        by (simp only: e1 k sc)
    next
      case full: True
      then have le: "unat len \<le> ?r"
        by (simp add: min_def split: if_splits)
      have k: "min (iov_total (io # ios)) ?r = unat len + min (iov_total ios) (?r - unat len)"
        using le by (simp add: tot)
      have sc: "scatter ?mem ?s' (io # ios) = scatter ?mem1 (drop (pos + unat len) ?s) ios"
        using ne le full by (simp add: io ls' min_def add.commute)
      have len1: "length ?mem1 = length ?mem"
        using inb full by simp
      have p1: "iovecs_at (hostMem ?m1) (p + 8) ios"
      proof -
        have "unat buf + length (map ucast (take ?lw ?s') :: byte list) \<le> length ?mem"
          using inb by simp
        moreover have "headers_outside (p + 8) (length ios) (unat buf)
                         (length (map ucast (take ?lw ?s') :: byte list))"
          using out by (rule headers_outside_mono) simp
        ultimately have "iovecs_at (take (unat buf) ?mem @ (map ucast (take ?lw ?s') :: byte list)
            @ drop (unat buf + length (map ucast (take ?lw ?s') :: byte list)) ?mem) (p + 8) ios"
          using tl by (intro iovecs_at_splice)
        then show ?thesis
          by simp
      qed
      have p2: "\<forall>io \<in> set ios. snd io \<noteq> 0 \<and> unat (fst io) + unat (snd io) \<le> length (hostMem ?m1) \<and>
           headers_outside (p + 8) (length ios) (unat (fst io)) (unat (snd io))"
        using Cons.prems(2) len1 by simp
      have p3: "stdinStrPos ?m1 = Some (int (pos + unat len))"
        using full by simp
      have p4: "pos + unat len \<le> length (stdinStr ?m1)"
        using le Cons.prems(4) by simp
      note ih = Cons.IH [OF p1 p2 p3 p4, of "sz + int ?lw"]
      have "host_read_loop (length (io # ios)) p (Some sz) m =
              host_read_loop (length ios) (p + 8) (Some (sz + int ?lw)) ?m1"
        using full by (simp only: step simp_thms if_False)
      also note ih
      finally have e2: "host_read_loop (length (io # ios)) p (Some sz) m =
        (Inr (Some (sz + int ?lw +
                 int (min (iov_total ios) (length (stdinStr ?m1) - (pos + unat len))))),
         ?m1\<lparr>hostMem := scatter (hostMem ?m1) (drop (pos + unat len) (stdinStr ?m1)) ios,
            stdinStrPos := Some (int (pos + unat len +
                 min (iov_total ios) (length (stdinStr ?m1) - (pos + unat len))))\<rparr>)" .
      show ?thesis
        unfolding e2 using full by (simp add: k sc add.assoc del: scatter.simps)
    qed
  qed
qed


lemma host_read_scatters_input:
  assumes fd: "sint fd = 0" and n: "sint iovs_len = int (length ios)"
    and al: "length (sharedMem m) mod 4 = 0"
    and mb: "read32 (sharedMem m) 0 = Some 0"
    and v: "length v < length (sharedMem m)" "(0::byte) \<notin> ucast ` set v"
    and iov: "iovecs_at (hostMem m) (sint iovs) ios"
    and ok: "\<forall>io \<in> set ios. snd io \<noteq> 0 \<and> unat (fst io) + unat (snd io) \<le> length (hostMem m) \<and>
               headers_outside (sint iovs) (length ios) (unat (fst io)) (unat (snd io))"
  shows "host_read fd iovs iovs_len nread (Some v) m =
           Some (Inr ESUCCESS,
                 m\<lparr>hostRead_requests := hostRead_requests m + 1,
                   stdinStr := map (\<lambda>c. ucast (ucast c :: byte)) v,
                   stdinStrPos := Some (int (min (iov_total ios) (length v))),
                   sharedMem := replicate (length (sharedMem m)) 0,
                   hostMem := write32 (scatter (hostMem m) (map (\<lambda>c. ucast (ucast c :: byte)) v) ios)
                                (sint nread) (word_of_nat (min (iov_total ios) (length v)))\<rparr>)"
proof -
  let ?s = "map (\<lambda>c. ucast (ucast c :: byte) :: jschar) v"
  let ?k = "min (iov_total ios) (length v)"
  let ?m2 = "m\<lparr>hostRead_requests := Suc (hostRead_requests m), stdinStr := ?s,
               stdinStrPos := Some 0, sharedMem := replicate (length (sharedMem m)) 0\<rparr>"
  have w: "atomics_wait (sharedMem m) (Some v) = Some (Inr (deliver_input v (sharedMem m)))"
    using al mb by (rule atomics_wait_delivers)
  have sc: "scan_sharedMem (deliver_input v (sharedMem m)) 0 [] = Some ?s"
    using v by (rule scan_delivered_input)
  have nn: "nat (sint iovs_len) = length ios"
    using n by simp
  have lp: "host_read_loop (length ios) (sint iovs) (Some 0) ?m2 =
           (Inr (Some (int ?k)),
            ?m2\<lparr>hostMem := scatter (hostMem m) ?s ios, stdinStrPos := Some (int ?k)\<rparr>)"
  proof -
    have "iovecs_at (hostMem ?m2) (sint iovs) ios"
      "\<forall>io \<in> set ios. snd io \<noteq> 0 \<and> unat (fst io) + unat (snd io) \<le> length (hostMem ?m2) \<and>
               headers_outside (sint iovs) (length ios) (unat (fst io)) (unat (snd io))"
      "stdinStrPos ?m2 = Some (int 0)" "0 \<le> length (stdinStr ?m2)"
      using iov ok by simp_all
    from host_read_loop_scatter [OF this, of 0] show ?thesis
      by simp
  qed
  show ?thesis
    using fd
    by (simp add: host_read_def w sc assert_def Let_def nn lp to_uint32_def setStdinStr_def)
qed

text \<open>
  C3 at the input where the code departs from it. The guest passes two iovecs, the
  first of length 0 and the second of length 10, and the controlling thread delivers the 3
  bytes of \<open>42\<close> and a newline. The loop leaves at the first iovec because
  \<open>lenToWrite\<close> is 0: no byte is written to the second buffer and the count stored at
  \<open>nread\<close> is 0, where the minimum of the total capacity and the available bytes is 3.
\<close>

theorem host_read_zero_length_iovec:
  "iovecs_at zero_iov_mem 0 [(16, 0), (16, 10)] \<and>
   host_read 0 0 2 28 (Some (js ''42'' @ [10])) (memfs0 zero_iov_mem) =
     Some (Inr ESUCCESS,
           \<lparr>hostMem = [16, 0, 0, 0, 0, 0, 0, 0, 16, 0, 0, 0, 10, 0, 0, 0,
                       1, 1, 1, 1, 1, 1, 1, 1, 1, 1, 1, 1, 0, 0, 0, 0],
            stdinStr = js ''42'' @ [10], stdinStrPos = Some 0,
            sharedMem = replicate 8 0, hostWrite_out = [], hostRead_requests = 1\<rparr>) \<and>
   read32 [16, 0, 0, 0, 0, 0, 0, 0, 16, 0, 0, 0, 10, 0, 0, 0,
           1, 1, 1, 1, 1, 1, 1, 1, 1, 1, 1, 1, 0, 0, 0, 0] 28 = Some 0 \<and>
   min (unat (0 :: 32 word) + unat (10 :: 32 word)) (length (js ''42'' @ [10])) = 3"
  by code_simp

section \<open>Properties of Tar\<close>

lemma header_type_byte:
  assumes "0 \<le> offset t" and "offset t + 512 \<le> int (length (u8 t))"
  shows "header_type t =
           (if u8 t ! nat (offset t + 156) = 0 then [] else [ucast (u8 t ! nat (offset t + 156))])"
  using assms by (simp add: header_type_def readStr_def u8_at_def)

lemma readEntry_assert:
  assumes inb: "offset t + 512 \<le> int (length (u8 t))"
    and magic: "header_magic t = js ''ustar  ''"
    and ty: "header_type t \<noteq> js ''0''" "header_type t \<noteq> js ''5''"
  shows "readEntry t = (Inl AssertError, t\<lparr>offset := alignUp_number (Some (offset t + 500))\<rparr>)"
proof -
  have m: "readStr (u8 t) (offset t + 257) 8 = js ''ustar  ''"
    using magic by (simp add: header_magic_def)
  have t0: "readStr (u8 t) (offset t + 156) 1 \<noteq> js ''0''"
    and t5: "readStr (u8 t) (offset t + 156) 1 \<noteq> js ''5''"
    using ty by (simp_all add: header_type_def)
  have nb: "\<not> int (length (u8 t)) < offset t + 512"
    using inb by simp
  show ?thesis
    unfolding readEntry_def
    by (simp add: nb Tar_readStr_def readOctal_def alignUp_def Let_def m t0 t5 add.assoc
          del: readStr_loop.simps)
qed

text \<open>
  C5. When the header at the offset lies inside the archive, carries the magic
  \<open>ustar\<close> followed by two spaces, and its type flag is neither \<open>0\<close> nor
  \<open>5\<close>: \<open>readEntry\<close> throws the assertion error, and \<open>untar\<close> ends with that
  error and the file system exactly as it was when the entry was reached: the entry is
  neither skipped nor added.
\<close>

theorem untar_unsupported_type_fails:
  assumes "offset t + 512 \<le> int (length (u8 t))"
    and "header_magic t = js ''ustar  ''"
    and "header_type t \<noteq> js ''0''" and "header_type t \<noteq> js ''5''"
  shows "fst (readEntry t) = Inl AssertError \<and>
         untar add_file add_directory t fs = Some (Inl AssertError, snd (readEntry t), fs)"
proof -
  have r: "readEntry t = (Inl AssertError, t\<lparr>offset := alignUp_number (Some (offset t + 500))\<rparr>)"
    using assms by (rule readEntry_assert)
  have "untar add_file add_directory t fs = Some (Inl AssertError, snd (readEntry t), fs)"
    by (subst untar.simps) (simp add: r)
  then show ?thesis
    by (simp add: r)
qed



lemma readEntry_directory:
  assumes inb: "offset t + 512 \<le> int (length (u8 t))"
    and magic: "header_magic t = js ''ustar  ''"
    and ty: "header_type t = js ''5''"
  shows "\<exists>e. readEntry t = (Inr (Some e), t\<lparr>offset := alignUp_number (Some (offset t + 500))\<rparr>) \<and>
             type' e = js ''5'' \<and> filename e = readStr (u8 t) (offset t) 100"
proof -
  have m: "readStr (u8 t) (offset t + 257) 8 = js ''ustar  ''"
    using magic by (simp add: header_magic_def)
  have t5: "readStr (u8 t) (offset t + 156) 1 = js ''5''"
    using ty by (simp add: header_type_def)
  have ne: "js ''5'' \<noteq> js ''0''"
    by (simp add: js_def)
  have nb: "\<not> int (length (u8 t)) < offset t + 512"
    using inb by simp
  show ?thesis
    unfolding readEntry_def
    by (simp add: nb Tar_readStr_def readOctal_def alignUp_def Let_def m t5 ne add.assoc
          del: readStr_loop.simps)
qed



theorem untar_unsupported_type_fails_witness:
  "offset \<lparr>u8 = bad_archive, offset = 512\<rparr> + 512 \<le> int (length (u8 \<lparr>u8 = bad_archive, offset = 512\<rparr>)) \<and>
   header_magic \<lparr>u8 = bad_archive, offset = 512\<rparr> = js ''ustar  '' \<and>
   header_type \<lparr>u8 = bad_archive, offset = 512\<rparr> = js ''2'' \<and>
   fst (readEntry \<lparr>u8 = bad_archive, offset = 512\<rparr>) = Inl AssertError \<and>
   untar list_addFile list_addDirectory \<lparr>u8 = bad_archive, offset = 0\<rparr> [] =
     Some (Inl AssertError, \<lparr>u8 = bad_archive, offset = 1024\<rparr>, [(js ''src/'', None)])"
proof -
  let ?first = "\<lparr>u8 = bad_archive, offset = 0\<rparr>"
  let ?bad = "\<lparr>u8 = bad_archive, offset = 512\<rparr>"
  have h1: "offset ?bad + 512 \<le> int (length (u8 ?bad))" by code_simp
  have h2: "header_magic ?bad = js ''ustar  ''" by code_simp
  have ty: "header_type ?bad = js ''2''" by code_simp
  have h3: "header_type ?bad \<noteq> js ''0''" by code_simp
  have h4: "header_type ?bad \<noteq> js ''5''" by code_simp
  note w = untar_unsupported_type_fails [OF h1 h2 h3 h4, of list_addFile list_addDirectory "[(js ''src/'', None)]"]
  have al: "alignUp_number (Some 500) = 512" "alignUp_number (Some 1012) = 1024"
    by (simp_all add: alignUp_number_def)
  have second: "snd (readEntry ?bad) = \<lparr>u8 = bad_archive, offset = 1024\<rparr>"
    using readEntry_assert [OF h1 h2 h3 h4] al by simp
  have d1: "offset ?first + 512 \<le> int (length (u8 ?first))" by code_simp
  have d2: "header_magic ?first = js ''ustar  ''" by code_simp
  have d3: "header_type ?first = js ''5''" by code_simp
  have d4: "readStr (u8 ?first) (offset ?first) 100 = js ''src/''" by code_simp
  from readEntry_directory [OF d1 d2 d3] obtain e where
    e: "readEntry ?first = (Inr (Some e), ?bad)" "type' e = js ''5''" "filename e = js ''src/''"
    using al d4 by auto
  have ne: "js ''5'' \<noteq> js ''0''"
    by (simp add: js_def)
  have "untar list_addFile list_addDirectory ?first [] =
          untar list_addFile list_addDirectory ?bad [(js ''src/'', None)]"
    by (subst untar.simps) (simp add: e ne list_addDirectory_def)
  then have u: "untar list_addFile list_addDirectory ?first [] =
     Some (Inl AssertError, \<lparr>u8 = bad_archive, offset = 1024\<rparr>, [(js ''src/'', None)])"
    using w second by simp
  from h1 h2 ty w u show ?thesis
    by blast
qed

section \<open>Properties of the file system\<close>

lemma write_path_Inr:
  assumes "write_path path e = Inr e1" and "path_buf e = 0"
  shows "nodes e1 = nodes e" and "path_buf e1 = 0" and "length (emem e1) = length (emem e)"
    and "path_arg (length path) e1 = path_bytes path"
proof -
  from assms have le: "length path \<le> length (emem e)"
    by (auto simp add: write_path_def GetPathBuf_def write_mem_def set_numbers_def
          split: if_splits)
  then have e1: "e1 = e\<lparr>emem := map ucast path @ drop (length path) (emem e)\<rparr>"
    using assms write_Text [of "0" path "emem e"]
    by (simp add: write_path_def GetPathBuf_def)
  show "nodes e1 = nodes e" "path_buf e1 = 0"
    using assms(2) by (simp_all add: e1)
  show "length (emem e1) = length (emem e)"
    using le by (simp add: e1)
  show "path_arg (length path) e1 = path_bytes path"
    using assms(2) by (simp add: e1 path_arg_def path_bytes_def)
qed

lemma write_path_succeeds:
  assumes "path_buf e = 0" and "length path \<le> length (emem e)"
  shows "\<exists>e1. write_path path e = Inr e1"
  using assms write_Text [of "0" path "emem e"]
  by (simp add: write_path_def GetPathBuf_def)

lemma write_mem_succeeds:
  assumes "0 \<le> o'" and "nat o' + buf_length c \<le> length mem"
  shows "\<exists>mem'. write_mem mem o' c = Inr (buf_length c, mem') \<and> length mem' = length mem"
  using assms by (cases c) (simp_all add: write_mem_def buf_length_def set_numbers_def)

lemma apply_op_step:
  assumes "apply_op x e = Inr e'" and "engine_ok e"
  shows "engine_ok e'"
    and "length (emem e) \<le> length (emem e')"
    and "\<exists>n. node_for x n \<and> nodes e' = (nodes e)(path_bytes (op_path x) \<mapsto> n)"
proof -
  have pb: "path_buf e = 0"
    using assms(2) by (simp add: engine_ok_def)
  have inb: "\<And>p n. nodes e p = Some n \<Longrightarrow> node_addr n + node_size n \<le> length (emem e)"
    using assms(2) by (simp add: engine_ok_def)
  show "engine_ok e'" "length (emem e) \<le> length (emem e')"
    "\<exists>n. node_for x n \<and> nodes e' = (nodes e)(path_bytes (op_path x) \<mapsto> n)"
  proof (atomize (full), cases x)
    case (AddDirectory path)
    from assms(1) obtain e1 where w: "write_path path e = Inr e1"
      and e': "e' = AddDirectoryNode (length path) e1"
      by (auto simp add: AddDirectory addDirectory_def split: sum.splits)
    note k = write_path_Inr [OF w pb]
    have n: "nodes e' = (nodes e)(path_bytes path \<mapsto> \<lparr>node_kind = Directory, node_addr = 0, node_size = 0\<rparr>)"
      by (simp add: e' AddDirectoryNode_def k)
    have m: "emem e' = emem e1" "path_buf e' = 0"
      by (simp_all add: e' AddDirectoryNode_def k)
    have "engine_ok e'"
      using inb by (auto simp add: engine_ok_def n m k)
    then show "engine_ok e' \<and> length (emem e) \<le> length (emem e') \<and>
        (\<exists>n. node_for x n \<and> nodes e' = (nodes e)(path_bytes (op_path x) \<mapsto> n))"
      using n by (simp add: AddDirectory m k)
  next
    case (AddFile path c)
    from assms(1) obtain e1 where w: "write_path path e = Inr e1"
      by (auto simp add: AddFile addFile_def Let_def split: sum.splits)
    note k = write_path_Inr [OF w pb]
    let ?n = "\<lparr>node_kind = File, node_addr = length (emem e1), node_size = buf_length c\<rparr>"
    let ?e2 = "e1\<lparr>emem := emem e1 @ replicate (buf_length c) 0,
                  nodes := (nodes e1)(path_arg (length path) e1 \<mapsto> ?n)\<rparr>"
    have a: "AddFileNode (length path) (buf_length c) e1 = (?n, ?e2)"
      by (simp add: AddFileNode_def Let_def)
    obtain mem' where
      wm: "write_mem (emem e1 @ replicate (buf_length c) 0) (int (length (emem e1))) c
             = Inr (buf_length c, mem')"
      and lm': "length mem' = length (emem e1 @ replicate (buf_length c) 0)"
      using write_mem_succeeds [of "int (length (emem e1))" c "emem e1 @ replicate (buf_length c) 0"]
      by auto
    have e': "e' = ?e2\<lparr>emem := mem'\<rparr>"
      using assms(1) by (simp add: AddFile addFile_def Let_def w a wm GetFileNodeAddress_def)
    have lm: "length mem' = length (emem e1) + buf_length c"
      using lm' by simp
    have n: "nodes e' = (nodes e)(path_bytes path \<mapsto> ?n)"
      by (simp add: e' k)
    have m: "length (emem e') = length (emem e) + buf_length c" "path_buf e' = 0"
      by (simp_all add: e' lm k)
    have "node_addr n' + node_size n' \<le> length (emem e')" if "nodes e' p = Some n'" for p n'
    proof (cases "p = path_bytes path")
      case True
      then have "n' = ?n"
        using that by (simp add: n)
      then show ?thesis
        by (simp add: m k)
    next
      case False
      then have "nodes e p = Some n'"
        using that by (simp add: n)
      then show ?thesis
        using inb [of p n'] by (simp add: m)
    qed
    then have "engine_ok e'"
      by (simp add: engine_ok_def m)
    moreover have "node_for x ?n \<and> nodes e' = (nodes e)(path_bytes (op_path x) \<mapsto> ?n)"
      using n by (simp add: AddFile)
    then have "\<exists>n. node_for x n \<and> nodes e' = (nodes e)(path_bytes (op_path x) \<mapsto> n)"
      by (rule exI)
    ultimately show "engine_ok e' \<and> length (emem e) \<le> length (emem e') \<and>
        (\<exists>n. node_for x n \<and> nodes e' = (nodes e)(path_bytes (op_path x) \<mapsto> n))"
      by (simp add: m)
  qed
qed

lemma apply_ops_nodes:
  assumes "apply_ops ops e = Inr e'" and "engine_ok e"
  shows "engine_ok e' \<and> length (emem e) \<le> length (emem e') \<and>
         (case last_registration p ops of
            None \<Rightarrow> nodes e' p = nodes e p
          | Some x \<Rightarrow> (\<exists>n. nodes e' p = Some n \<and> node_for x n))"
  using assms
proof (induction ops arbitrary: e)
  case Nil
  then show ?case by simp
next
  case (Cons x xs)
  from Cons.prems(1) obtain e1 where s: "apply_op x e = Inr e1" and r: "apply_ops xs e1 = Inr e'"
    by (auto split: sum.splits)
  note st = apply_op_step [OF s Cons.prems(2)]
  from st(3) obtain n where n: "node_for x n" "nodes e1 = (nodes e)(path_bytes (op_path x) \<mapsto> n)"
    by blast
  note ih = Cons.IH [OF r st(1)]
  show ?case
    using ih st(2) n by (auto split: option.splits)
qed

lemma last_registration_None:
  "last_registration p ops = None \<longleftrightarrow> p \<notin> path_bytes ` op_path ` set ops"
  by (induction ops) (auto split: option.splits)

lemma last_registration_Some:
  "last_registration p ops = Some x \<Longrightarrow> x \<in> set ops \<and> path_bytes (op_path x) = p"
  by (induction ops) (auto split: option.splits if_splits)

lemma ucast_latin1:
  assumes "(c :: jschar) < 256"
  shows "ucast (ucast c :: byte) = c"
proof -
  have "c AND mask 8 = c"
    using assms less_mask_eq [of c 8] by simp
  moreover have "ucast (ucast c :: byte) = c AND mask 8"
    by (rule bit_word_eqI) (auto simp add: bit_simps)
  ultimately show ?thesis by simp
qed

lemma path_bytes_inj:
  assumes "latin1 p" and "latin1 q" and "path_bytes p = path_bytes q"
  shows "p = q"
proof -
  have "map (\<lambda>c. ucast (ucast c :: byte) :: jschar) p = map (\<lambda>c. ucast (ucast c :: byte)) q"
  proof -
    have "map (ucast :: byte \<Rightarrow> jschar) (path_bytes p) = map ucast (path_bytes q)"
      using assms(3) by simp
    then show ?thesis
      by (simp add: path_bytes_def comp_def)
  qed
  moreover have "map (\<lambda>c. ucast (ucast c :: byte) :: jschar) p = p"
    using assms(1) by (induction p) (simp_all add: latin1_def ucast_latin1)
  moreover have "map (\<lambda>c. ucast (ucast c :: byte) :: jschar) q = q"
    using assms(2) by (induction q) (simp_all add: latin1_def ucast_latin1)
  ultimately show ?thesis by simp
qed

lemma engine_ok_init: "engine_ok (init_engine cap)"
  by (simp add: engine_ok_def init_engine_def)

text \<open>
  C2, as amended. \<open>Memory.write\<close> stores a path as the low bytes of its code units,
  and these bytes are all the engine sees of it. Let a history of \<open>addFile\<close> and
  \<open>addDirectory\<close> calls run without failure from a fresh engine, and let \<open>path\<close>
  fit the path buffer. If no call registered a path with the bytes of \<open>path\<close> (so, when
  all paths are Latin-1, if no call registered \<open>path\<close>), \<open>getFileContents path\<close>
  fails with \<open>NotFound\<close>. If the last registration with the bytes of \<open>path\<close> is
  \<open>addFile\<close> with contents \<open>c\<close>, \<open>getFileContents path\<close> returns a view whose
  length is the length of \<open>c\<close>.
\<close>

theorem getFileContents_lookup:
  assumes ops: "apply_ops ops (init_engine cap) = Inr e"
    and len: "length path \<le> cap"
  shows "(path_bytes path \<notin> path_bytes ` op_path ` set ops \<longrightarrow>
            fst (getFileContents path e) = Inl NotFound) \<and>
         (latin1 path \<and> (\<forall>x \<in> set ops. latin1 (op_path x)) \<and> path \<notin> op_path ` set ops \<longrightarrow>
            fst (getFileContents path e) = Inl NotFound) \<and>
         (\<forall>q c. last_registration (path_bytes path) ops = Some (AddFile q c) \<longrightarrow>
            (\<exists>view. fst (getFileContents path e) = Inr view \<and> length view = buf_length c))"
proof -
  note inv = apply_ops_nodes [OF ops engine_ok_init]
  have ok: "engine_ok e" and grow: "cap \<le> length (emem e)"
    using inv [of "[]"] by (simp_all add: init_engine_def)
  have pb: "path_buf e = 0"
    using ok by (simp add: engine_ok_def)
  obtain e1 where w: "write_path path e = Inr e1"
    using write_path_succeeds [OF pb, of path] len grow by auto
  note k = write_path_Inr [OF w pb]
  have find: "FindNode (length path) e1 =
                (case nodes e (path_bytes path) of None \<Rightarrow> Inl NotFound | Some n \<Rightarrow> Inr n)"
    by (simp add: FindNode_def k)
  have nf: "fst (getFileContents path e) = Inl NotFound"
    if "path_bytes path \<notin> path_bytes ` op_path ` set ops"
  proof -
    have "last_registration (path_bytes path) ops = None"
      using that by (simp add: last_registration_None)
    then have "nodes e (path_bytes path) = None"
      using inv [of "path_bytes path"] by (simp add: init_engine_def)
    then show ?thesis
      by (simp add: getFileContents_def w find)
  qed
  have nf': "fst (getFileContents path e) = Inl NotFound"
    if "latin1 path \<and> (\<forall>x \<in> set ops. latin1 (op_path x)) \<and> path \<notin> op_path ` set ops"
  proof -
    have "path_bytes path \<notin> path_bytes ` op_path ` set ops"
    proof
      assume "path_bytes path \<in> path_bytes ` op_path ` set ops"
      then obtain x where x: "x \<in> set ops" "path_bytes path = path_bytes (op_path x)"
        by auto
      then have "path = op_path x"
        using that path_bytes_inj [of path "op_path x"] by blast
      then show False
        using that x(1) by blast
    qed
    then show ?thesis by (rule nf)
  qed
  have isfile: "\<exists>view. fst (getFileContents path e) = Inr view \<and> length view = buf_length c"
    if "last_registration (path_bytes path) ops = Some (AddFile q c)" for q c
  proof -
    from that obtain n where n: "nodes e (path_bytes path) = Some n" "node_kind n = File"
        "node_size n = buf_length c"
      using inv [of "path_bytes path"] by auto
    have "node_addr n + node_size n \<le> length (emem e1)"
      using ok n(1) k(3) by (simp add: engine_ok_def)
    then show ?thesis
      using n by (simp add: getFileContents_def w find new_Uint8Array_def GetFileNodeAddress_def
            GetFileNodeSize_def)
  qed
  from nf nf' isfile show ?thesis
    by blast
qed


theorem getFileContents_lookup_witness:
  "\<not> isl (apply_ops demo_ops (init_engine 16)) \<and>
   length (js ''src/b.txt'') \<le> 16 \<and>
   path_bytes (js ''src/b.txt'') \<notin> path_bytes ` op_path ` set demo_ops \<and>
   fst (getFileContents (js ''src/b.txt'') (projr (apply_ops demo_ops (init_engine 16)))) = Inl NotFound \<and>
   last_registration (path_bytes (js ''src/a.txt'')) demo_ops
     = Some (AddFile (js ''src/a.txt'') (Text (js ''hi'' @ [10]))) \<and>
   fst (getFileContents (js ''src/a.txt'') (projr (apply_ops demo_ops (init_engine 16))))
     = Inr [104, 105, 10] \<and>
   buf_length (Text (js ''hi'' @ [10])) = 3"
proof -
  let ?e = "projr (apply_ops demo_ops (init_engine 16))"
  have r: "\<not> isl (apply_ops demo_ops (init_engine 16))"
    by code_simp
  then have h: "apply_ops demo_ops (init_engine 16) = Inr ?e"
    by simp
  have l: "length (js ''src/b.txt'') \<le> 16"
    by (simp add: js_def)
  have u: "path_bytes (js ''src/b.txt'') \<notin> path_bytes ` op_path ` set demo_ops"
    by code_simp
  have nf: "fst (getFileContents (js ''src/b.txt'') ?e) = Inl NotFound"
    using getFileContents_lookup [OF h l] u by blast
  have lr: "last_registration (path_bytes (js ''src/a.txt'')) demo_ops
     = Some (AddFile (js ''src/a.txt'') (Text (js ''hi'' @ [10])))"
    by code_simp
  have v: "fst (getFileContents (js ''src/a.txt'') ?e) = Inr [104, 105, 10]"
    by code_simp
  have b: "buf_length (Text (js ''hi'' @ [10])) = 3"
    by code_simp
  from r l u nf lr v b show ?thesis
    by blast
qed

text \<open>
  C2 as stated fails for a path that was never registered and has the bytes of a
  registered one: after \<open>addFile\<close> of the one-character path U+0141 with contents
  \<open>x\<close>, the path \<open>A\<close> was never registered, and \<open>getFileContents\<close> of it
  returns the one byte of \<open>x\<close> instead of failing.
\<close>

theorem getFileContents_collision_counterexample:
  "\<not> isl (apply_ops collision_ops (init_engine 16)) \<and>
   js ''A'' \<notin> op_path ` set collision_ops \<and>
   fst (getFileContents (js ''A'') (projr (apply_ops collision_ops (init_engine 16)))) = Inr [120] \<and>
   fst (getFileContents (js ''A'') (projr (apply_ops collision_ops (init_engine 16)))) \<noteq> Inl NotFound"
  by code_simp

section \<open>Properties of formatErrorMsg\<close>

lemma js_split_not_Nil [simp]: "js_split sep s \<noteq> []"
  by (induction s) (auto split: list.splits)

lemma get_substitution_no_dollar:
  "0x24 \<notin> set t \<Longrightarrow> get_substitution matched str pos t = t"
  by (induction matched str pos t rule: get_substitution.induct) auto

lemma js_replace_no_dollar:
  "0x24 \<notin> set name \<Longrightarrow>
   js_replace line pat name =
     (case index_of pat line of
        None \<Rightarrow> line
      | Some pos \<Rightarrow> take pos line @ name @ drop (pos + length pat) line)"
  by (simp add: js_replace_def get_substitution_no_dollar split: option.split)


lemma formatErrorMsg_no_dollar:
  assumes "0x24 \<notin> set activeTabName"
  shows "formatErrorMsg msg activeTabName =
           js_join [0x0A]
             (map (\<lambda>line. case index_of (js ''<exec>'') line of
                            None \<Rightarrow> line
                          | Some pos \<Rightarrow> take pos line @ activeTabName @ drop (pos + 6) line)
                  (hd (js_split 0x0A msg) # drop 7 (js_split 0x0A msg)))"
proof -
  have "js_replace line (js ''<exec>'') activeTabName =
          (case index_of (js ''<exec>'') line of
             None \<Rightarrow> line
           | Some pos \<Rightarrow> take pos line @ activeTabName @ drop (pos + 6) line)" for line
  proof -
    have "length (js ''<exec>'') = 6"
      by (simp add: js_def)
    then show ?thesis
      using js_replace_no_dollar [OF assms, of line "js ''<exec>''"] by (simp split: option.split)
  qed
  then show ?thesis
    by (simp add: formatErrorMsg_def Let_def)
qed

text \<open>
  C8 at inputs where the code departs from it. For the file name \<open>prog.py\<close> the
  traceback line that names \<open><exec>\<close> is shown with \<open>prog.py\<close>. For the file name
  \<open>a$&b.py\<close> the same line is shown with \<open>a<exec>b.py\<close>: \<open>replace\<close> reads
  \<open>$&\<close> in the file name as the matched token, so the user sees neither the file name
  nor a text free of the token. \<open>replace\<close> with a string pattern also stops after the
  first occurrence in a line.
\<close>

theorem formatErrorMsg_dollar_in_file_name:
  "formatErrorMsg traceback (js ''prog.py'') =
     js ''Traceback (most recent call last):'' @ [0x0A] @
     js ''  File '' @ [0x22] @ js ''prog.py'' @ [0x22] @ js '', line 1, in <module>'' @ [0x0A] @
     js ''NameError: name x is not defined'' \<and>
   formatErrorMsg traceback (js ''a$&b.py'') =
     js ''Traceback (most recent call last):'' @ [0x0A] @
     js ''  File '' @ [0x22] @ js ''a<exec>b.py'' @ [0x22] @ js '', line 1, in <module>'' @ [0x0A] @
     js ''NameError: name x is not defined'' \<and>
   formatErrorMsg (js ''ValueError: <exec> <exec>'') (js ''prog.py'') = js ''ValueError: prog.py <exec>''"
  by code_simp

end
